theory Spec2Isabelle
  imports Main "HOL-Library.Word" "HOL-Library.List_Lexorder" "HOL-Library.Char_ord"
    "HOL-Library.Sublist"
begin

unbundle bit_operations_syntax

section \<open>Data\<close>

text \<open>
  A Go \<open>[]byte\<close> is a list of 8-bit words. Where the program tests a slice against
  \<open>nil\<close> (the handle's secret, the data of \<open>SaveBytes\<close>, the key a cursor yields) the
  slice is an \<open>option\<close> with \<open>None\<close> for \<open>nil\<close>; elsewhere only its contents are kept.
  A Go \<open>string\<close> is a \<open>string\<close>: a list of bytes, ordered bytewise (as
  \<open>bytes.Compare\<close> orders keys) by the lexicographic order on \<open>char list\<close>.
\<close>

type_synonym byte = "8 word"
type_synonym bytes = "byte list"

text \<open>\<open>len\<close> of a slice that may be nil: \<open>len(nil) = 0\<close>.\<close>

definition slice_bytes :: "bytes option \<Rightarrow> bytes" where
  "slice_bytes s = (case s of None \<Rightarrow> [] | Some bs \<Rightarrow> bs)"

text \<open>
  Every error value the package returns, makes or passes through. The two wrappers stand
  for \<open>errors.New("Decrypt error from db " + err.Error())\<close> and its Encrypt twin.
\<close>

datatype error =
    ErrFileNameInvalid
  | ErrPathInvalid
  | ErrKeyInvalid
  | ErrDataNil
  | ErrDeleteKeyNil
  | DecryptErrorFromDB error
  | EncryptErrorFromDB error
  | ErrCiphertextTooShort
  | KeySizeError nat
  | ErrMessageAuthFailed
  | ErrRandRead
  | ErrBucketNotFound
  | ErrKeyRequired
  | ErrKeyTooLarge
  | ErrValueTooLarge
  | ErrBucketNameRequired
  | ErrOpenFailed
  | ErrMarshal

text \<open>
  The library functions the package calls and does not define: \<open>sha256.Sum256\<close>, the
  sealing and opening of the GCM mode over the AES block cipher, \<open>json.Marshal\<close> on the
  caller's data (of type \<open>'d\<close>) and \<open>filepath.Join\<close>. They are parameters of the
  model; what a theorem needs of them is a stated hypothesis.
\<close>

record 'd libs =
  sha256_Sum256 :: "bytes \<Rightarrow> bytes"
  gcm_Seal :: "bytes \<Rightarrow> bytes \<Rightarrow> bytes \<Rightarrow> bytes"
  gcm_Open :: "bytes \<Rightarrow> bytes \<Rightarrow> bytes \<Rightarrow> bytes option"
  json_Marshal :: "'d \<Rightarrow> error + bytes"
  filepath_Join :: "string \<Rightarrow> string \<Rightarrow> string"

text \<open>
  \<open>Sum256\<close> returns a \<open>[32]byte\<close>. Opening what was sealed under the same key and nonce
  gives the plaintext back (the contract of \<open>cipher.AEAD\<close>), for the key and nonce
  sizes the cipher accepts.
\<close>

definition sum256_size :: "'d libs \<Rightarrow> bool" where
  "sum256_size L = (\<forall>s. length (sha256_Sum256 L s) = 32)"

definition aead_contract :: "'d libs \<Rightarrow> bool" where
  "aead_contract L =
     (\<forall>k n p. length k \<in> {16, 24, 32} \<and> length n = 12 \<longrightarrow>
        gcm_Open L k n (gcm_Seal L k n p) = Some p)"

section \<open>aes.go: the receiverless Encrypt and Decrypt\<close>

text \<open>\<open>aes.NewCipher\<close>: a key of 16, 24 or 32 bytes, or \<open>KeySizeError(len(key))\<close>.\<close>

definition aes_NewCipher :: "bytes \<Rightarrow> error + bytes" where
  "aes_NewCipher key =
     (if length key = 16 \<or> length key = 24 \<or> length key = 32 then Inr key
      else Inl (KeySizeError (length key)))"

definition gcm_NonceSize :: nat where
  "gcm_NonceSize = 12"

text \<open>
  \<open>io.ReadFull(rand.Reader, buf)\<close>: the reader is the sequence of bytes it still holds;
  the read fills the whole buffer of \<open>n\<close> bytes or fails. The second component is the
  reader afterwards.
\<close>

definition io_ReadFull :: "bytes \<Rightarrow> nat \<Rightarrow> (error + bytes) \<times> bytes" where
  "io_ReadFull rnd n =
     (if length rnd < n then (Inl ErrRandRead, []) else (Inr (take n rnd), drop n rnd))"

text \<open>
  \<open>Encrypt(plain, key)\<close> with the state of \<open>rand.Reader\<close> passed in and out.
  \<open>cipher.NewGCM\<close> fails only for a block size other than 16, which AES never has.
  \<open>gcm.Seal(nonce, nonce, plain, nil)\<close> appends the sealed text to the nonce.
\<close>

definition Encrypt :: "'d libs \<Rightarrow> bytes \<Rightarrow> bytes \<Rightarrow> bytes \<Rightarrow> (error + bytes) \<times> bytes" where
  "Encrypt L rnd plain key =
     (case aes_NewCipher key of
        Inl e \<Rightarrow> (Inl e, rnd)
      | Inr c \<Rightarrow>
          (case io_ReadFull rnd gcm_NonceSize of
             (Inl e, rnd') \<Rightarrow> (Inl e, rnd')
           | (Inr nonce, rnd') \<Rightarrow> (Inr (nonce @ gcm_Seal L c nonce plain), rnd')))"

text \<open>\<open>Decrypt(ciphertext, key)\<close>.\<close>

definition Decrypt :: "'d libs \<Rightarrow> bytes \<Rightarrow> bytes \<Rightarrow> error + bytes" where
  "Decrypt L ciphertext key =
     (case aes_NewCipher key of
        Inl e \<Rightarrow> Inl e
      | Inr c \<Rightarrow>
          if length ciphertext < gcm_NonceSize then Inl ErrCiphertextTooShort
          else
            (case gcm_Open L c (take gcm_NonceSize ciphertext) (drop gcm_NonceSize ciphertext) of
               None \<Rightarrow> Inl ErrMessageAuthFailed
             | Some plain \<Rightarrow> Inr plain))"

section \<open>The engine (go.etcd.io/bbolt) as the package uses it\<close>

text \<open>
  The engine is a library, modelled by what it documents and the package relies on. A
  bucket is the sequence of its key/value pairs in ascending key order, a database file
  the map from bucket names to buckets (\<open>tx.Bucket\<close> returns nil for a name it does not
  hold). A cursor is the rest of the sequence from its position on: \<open>Seek\<close> moves to
  the first key not below the one sought, and at the end the cursor yields
  \<open>(nil, nil)\<close>. Waiting for a file lock and faults of the disk are not modelled.
\<close>

type_synonym bucket = "(string \<times> bytes) list"
type_synonym store = "string \<rightharpoonup> bucket"

definition MaxKeySize :: nat where
  "MaxKeySize = 32768"

definition MaxValueSize :: nat where
  "MaxValueSize = 2 ^ 31 - 2"

definition tx_Bucket :: "store \<Rightarrow> string \<Rightarrow> bucket option" where
  "tx_Bucket s bname = s bname"

definition tx_CreateBucketIfNotExists :: "store \<Rightarrow> string \<Rightarrow> error + store" where
  "tx_CreateBucketIfNotExists s bname =
     (if length bname = 0 then Inl ErrBucketNameRequired
      else case s bname of None \<Rightarrow> Inr (s(bname \<mapsto> [])) | Some b \<Rightarrow> Inr s)"

definition cursor_Seek :: "bucket \<Rightarrow> string \<Rightarrow> bucket" where
  "cursor_Seek b seek = dropWhile (\<lambda>(k, v). k < seek) b"

definition cursor_kv :: "bucket \<Rightarrow> string option \<times> bytes" where
  "cursor_kv c = (case c of [] \<Rightarrow> (None, []) | (k, v) # rest \<Rightarrow> (Some k, v))"

fun bucket_insert :: "string \<Rightarrow> bytes \<Rightarrow> bucket \<Rightarrow> bucket" where
  "bucket_insert k v [] = [(k, v)]"
| "bucket_insert k v ((k', v') # b) =
     (if k < k' then (k, v) # (k', v') # b
      else if k = k' then (k, v) # b
      else (k', v') # bucket_insert k v b)"

text \<open>
  The outcome of the function run inside a transaction: commit with the new contents,
  roll back with an error, or panic (the transaction rolls back and the panic goes on).
\<close>

datatype txresult = Commit store | Abort error | TxPanic

text \<open>
  \<open>Bucket.Put\<close> and \<open>Bucket.Delete\<close> on the handle \<open>tx.Bucket\<close> returned, within the
  store \<open>s\<close> of the transaction. Both read \<open>b.tx\<close> first: on a nil handle that is a
  nil-pointer dereference. \<open>Put\<close> refuses an empty key, an oversized key and an
  oversized value; \<open>Delete\<close> of an absent key is no error.
\<close>

definition Bucket_Put :: "store \<Rightarrow> string \<Rightarrow> bucket option \<Rightarrow> string \<Rightarrow> bytes \<Rightarrow> txresult" where
  "Bucket_Put s bname bkt key val =
     (case bkt of
        None \<Rightarrow> TxPanic
      | Some b \<Rightarrow>
          if length key = 0 then Abort ErrKeyRequired
          else if MaxKeySize < length key then Abort ErrKeyTooLarge
          else if MaxValueSize < length val then Abort ErrValueTooLarge
          else Commit (s(bname \<mapsto> bucket_insert key val b)))"

definition Bucket_Delete :: "store \<Rightarrow> string \<Rightarrow> bucket option \<Rightarrow> string \<Rightarrow> txresult" where
  "Bucket_Delete s bname bkt key =
     (case bkt of
        None \<Rightarrow> TxPanic
      | Some b \<Rightarrow> Commit (s(bname \<mapsto> filter (\<lambda>(k, v). k \<noteq> key) b)))"

text \<open>
  The world outside the handle: the file system (what \<open>os.Stat\<close> and \<open>bbolt.Open\<close>
  see), the paths the engine cannot open for a reason of the environment, the bytes
  \<open>rand.Reader\<close> will deliver, and counters of the connections opened and closed.
  A path holds a directory, a file that is not regular, a regular file that is no
  database, or a database file with its store.
\<close>

datatype fnode = Directory | Irregular | PlainFile | DBFile store

record world =
  fs :: "string \<rightharpoonup> fnode"
  unopenable :: "string \<Rightarrow> bool"
  rand_Reader :: bytes
  opens :: nat
  closes :: nat

definition IsDir :: "fnode \<Rightarrow> bool" where
  "IsDir n = (case n of Directory \<Rightarrow> True | _ \<Rightarrow> False)"

definition IsRegular :: "fnode \<Rightarrow> bool" where
  "IsRegular n = (case n of PlainFile \<Rightarrow> True | DBFile s \<Rightarrow> True | _ \<Rightarrow> False)"

text \<open>A connection \<open>*boltDB\<close> is the database file it has open.\<close>

datatype boltDB = BoltDB string

text \<open>
  \<open>bbolt.Open(path, 0600, nil)\<close> creates the file when there is none. The store of a
  connection is that of its file (empty, should the file be gone).
\<close>

definition bbolt_Open :: "world \<Rightarrow> string \<Rightarrow> error + world" where
  "bbolt_Open w p =
     (if unopenable w p then Inl ErrOpenFailed
      else case fs w p of
        None \<Rightarrow> Inr (w\<lparr>fs := (fs w)(p \<mapsto> DBFile Map.empty), opens := Suc (opens w)\<rparr>)
      | Some Directory \<Rightarrow> Inl ErrOpenFailed
      | Some Irregular \<Rightarrow> Inl ErrOpenFailed
      | Some PlainFile \<Rightarrow> Inl ErrOpenFailed
      | Some (DBFile s) \<Rightarrow> Inr (w\<lparr>opens := Suc (opens w)\<rparr>))"

definition db_Close :: "world \<Rightarrow> world" where
  "db_Close w = w\<lparr>closes := Suc (closes w)\<rparr>"

definition conn_store :: "world \<Rightarrow> boltDB \<Rightarrow> store" where
  "conn_store w c =
     (case c of BoltDB p \<Rightarrow> (case fs w p of Some (DBFile s) \<Rightarrow> s | _ \<Rightarrow> Map.empty))"

text \<open>
  What a function returns to its caller: a value with an error (\<open>None\<close> for a nil
  error), or a panic that passes through it. A function of result type \<open>error\<close> alone
  returns the value \<open>()\<close>.
\<close>

datatype 'a outcome = Returns (returned: 'a) (returned_error: "error option") | Panics

section \<open>locknut.go: the store handle\<close>

record BoltLocknut =
  name :: string
  path :: string
  fullPath :: string
  secret :: "bytes option"
  buckets :: "string list"
  batchMode :: bool
  db :: "boltDB option"

text \<open>\<open>SetSecret\<close>: the secret as given, or its SHA-256 digest if shorter than 32 bytes.\<close>

definition SetSecret :: "'d libs \<Rightarrow> BoltLocknut \<Rightarrow> bytes option \<Rightarrow> BoltLocknut" where
  "SetSecret L bl sec =
     (let bl1 = bl\<lparr>secret := sec\<rparr> in
      if length (slice_bytes sec) < 32
      then bl1\<lparr>secret := Some (sha256_Sum256 L (slice_bytes sec))\<rparr>
      else bl1)"

text \<open>
  \<open>db.update\<close> and \<open>db.view\<close>, the methods of \<open>*boltDB\<close>, run the function in a
  transaction on the connection's file. The function of an update also reads
  \<open>rand.Reader\<close> (through Encrypt), so the reader is passed through it.
\<close>

definition boltDB_update ::
  "world \<Rightarrow> boltDB \<Rightarrow> (store \<Rightarrow> bytes \<Rightarrow> txresult \<times> bytes) \<Rightarrow> unit outcome \<times> world" where
  "boltDB_update w c fn =
     (case fn (conn_store w c) (rand_Reader w) of
        (Commit s', rnd') \<Rightarrow>
          (case c of BoltDB p \<Rightarrow>
             (Returns () None, w\<lparr>fs := (fs w)(p \<mapsto> DBFile s'), rand_Reader := rnd'\<rparr>))
      | (Abort e, rnd') \<Rightarrow> (Returns () (Some e), w\<lparr>rand_Reader := rnd'\<rparr>)
      | (TxPanic, rnd') \<Rightarrow> (Panics, w\<lparr>rand_Reader := rnd'\<rparr>))"

definition boltDB_view :: "world \<Rightarrow> boltDB \<Rightarrow> (store \<Rightarrow> 'a \<times> error option) \<Rightarrow> 'a \<times> error option" where
  "boltDB_view w c fn = fn (conn_store w c)"

text \<open>
  \<open>openDB\<close> with its function \<open>initbuckets\<close>, and \<open>closeDB\<close>. A panic of the
  function run by the update would pass through \<open>openDB\<close>; \<open>initbuckets\<close> has none.
\<close>

fun initbuckets :: "string list \<Rightarrow> store \<Rightarrow> error + store" where
  "initbuckets [] s = Inr s"
| "initbuckets (bname # bnames) s =
     (case tx_CreateBucketIfNotExists s bname of
        Inl e \<Rightarrow> Inl e
      | Inr s' \<Rightarrow> initbuckets bnames s')"

definition openDB :: "BoltLocknut \<Rightarrow> world \<Rightarrow> unit outcome \<times> BoltLocknut \<times> world" where
  "openDB bl w =
     (if batchMode bl \<and> db bl \<noteq> None then (Returns () None, bl, w)
      else case bbolt_Open w (fullPath bl) of
        Inl e \<Rightarrow> (Returns () (Some e), bl, w)
      | Inr w1 \<Rightarrow>
          (case boltDB_update w1 (BoltDB (fullPath bl))
                  (\<lambda>s rnd. (case initbuckets (buckets bl) s of
                               Inl e \<Rightarrow> Abort e
                             | Inr s' \<Rightarrow> Commit s', rnd)) of
             (Returns u (Some e), w2) \<Rightarrow> (Returns () (Some e), bl, db_Close w2)
           | (Returns u None, w2) \<Rightarrow> (Returns () None, bl\<lparr>db := Some (BoltDB (fullPath bl))\<rparr>, w2)
           | (Panics, w2) \<Rightarrow> (Panics, bl, w2)))"

definition closeDB :: "BoltLocknut \<Rightarrow> world \<Rightarrow> BoltLocknut \<times> world" where
  "closeDB bl w =
     (if \<not> batchMode bl \<and> db bl \<noteq> None then (bl\<lparr>db := None\<rparr>, db_Close w) else (bl, w))"

text \<open>\<open>defer bl.closeDB()\<close>: runs when the function returns and when it panics.\<close>

definition deferred_closeDB ::
  "'a outcome \<times> BoltLocknut \<times> world \<Rightarrow> 'a outcome \<times> BoltLocknut \<times> world" where
  "deferred_closeDB x =
     (case x of (r, bl, w) \<Rightarrow> (case closeDB bl w of (bl', w') \<Rightarrow> (r, bl', w')))"

definition SetBatchMode :: "BoltLocknut \<Rightarrow> world \<Rightarrow> bool \<Rightarrow> BoltLocknut \<times> world" where
  "SetBatchMode bl w mode =
     (let bl1 = bl\<lparr>batchMode := mode\<rparr> in
      if \<not> mode then closeDB bl1 w else (bl1, w))"

text \<open>
  The loop of \<open>GetByPrefix\<close> over the cursor, from the position \<open>Seek\<close> gave, with the
  result map built so far. At the end of the bucket the cursor yields \<open>(nil, nil)\<close>:
  \<open>bytes.HasPrefix(nil, prefixKey)\<close> holds only for the empty prefix, and then the
  corner case breaks; either way the loop is left with no error.
\<close>

fun GetByPrefix_loop ::
  "'d libs \<Rightarrow> BoltLocknut \<Rightarrow> string \<Rightarrow> bucket \<Rightarrow> (string \<rightharpoonup> bytes)
    \<Rightarrow> (string \<rightharpoonup> bytes) \<times> error option" where
  "GetByPrefix_loop L bl prefixKey [] results = (results, None)"
| "GetByPrefix_loop L bl prefixKey ((k, v) # c) results =
     (if \<not> prefix prefixKey k then (results, None)
      else if length prefixKey = 0 \<and> length k = 0 \<and> length v = 0 then (results, None)
      else if secret bl \<noteq> None then
        (case Decrypt L v (slice_bytes (secret bl)) of
           Inl e \<Rightarrow> (results, Some (DecryptErrorFromDB e))
         | Inr dec \<Rightarrow> GetByPrefix_loop L bl prefixKey c (results(k \<mapsto> dec)))
      else GetByPrefix_loop L bl prefixKey c (results(k \<mapsto> v)))"

definition GetByPrefix_seekPrefix ::
  "'d libs \<Rightarrow> BoltLocknut \<Rightarrow> string \<Rightarrow> string \<Rightarrow> store \<Rightarrow> (string \<rightharpoonup> bytes) \<times> error option" where
  "GetByPrefix_seekPrefix L bl bname pre s =
     (case tx_Bucket s bname of
        None \<Rightarrow> (Map.empty, Some ErrBucketNotFound)
      | Some bkt \<Rightarrow> GetByPrefix_loop L bl pre (cursor_Seek bkt pre) Map.empty)"

text \<open>
  \<open>GetByPrefix\<close>: a failed open returns \<open>nil, err\<close>; otherwise the function returns
  \<open>results, err\<close> with whatever the view left in both.
\<close>

definition GetByPrefix ::
  "'d libs \<Rightarrow> BoltLocknut \<Rightarrow> world \<Rightarrow> string \<Rightarrow> string
    \<Rightarrow> (string \<rightharpoonup> bytes) outcome \<times> BoltLocknut \<times> world" where
  "GetByPrefix L bl w bname pre =
     (case openDB bl w of
        (Returns u (Some e), bl1, w1) \<Rightarrow> (Returns Map.empty (Some e), bl1, w1)
      | (Panics, bl1, w1) \<Rightarrow> (Panics, bl1, w1)
      | (Returns u None, bl1, w1) \<Rightarrow>
          deferred_closeDB
            (case db bl1 of
               None \<Rightarrow> (Panics, bl1, w1)
             | Some c \<Rightarrow>
                 (case boltDB_view w1 c (GetByPrefix_seekPrefix L bl1 bname pre) of
                    (results, err) \<Rightarrow> (Returns results err, bl1, w1))))"

fun GetKeyList_loop :: "string \<Rightarrow> bucket \<Rightarrow> string list \<Rightarrow> string list" where
  "GetKeyList_loop prefixKey [] results = results"
| "GetKeyList_loop prefixKey ((k, v) # c) results =
     (if prefix prefixKey k then GetKeyList_loop prefixKey c (results @ [k]) else results)"

definition GetKeyList_seekPrefix :: "string \<Rightarrow> string \<Rightarrow> store \<Rightarrow> string list \<times> error option" where
  "GetKeyList_seekPrefix bname pre s =
     (case tx_Bucket s bname of
        None \<Rightarrow> ([], Some ErrBucketNotFound)
      | Some bkt \<Rightarrow> (GetKeyList_loop pre (cursor_Seek bkt pre) [], None))"

definition GetKeyList ::
  "BoltLocknut \<Rightarrow> world \<Rightarrow> string \<Rightarrow> string \<Rightarrow> string list outcome \<times> BoltLocknut \<times> world" where
  "GetKeyList bl w bname pre =
     (case openDB bl w of
        (Returns u (Some e), bl1, w1) \<Rightarrow> (Returns [] (Some e), bl1, w1)
      | (Panics, bl1, w1) \<Rightarrow> (Panics, bl1, w1)
      | (Returns u None, bl1, w1) \<Rightarrow>
          deferred_closeDB
            (case db bl1 of
               None \<Rightarrow> (Panics, bl1, w1)
             | Some c \<Rightarrow>
                 (case boltDB_view w1 c (GetKeyList_seekPrefix bname pre) of
                    (results, err) \<Rightarrow> (Returns results err, bl1, w1))))"

text \<open>
  The function \<open>GetOne\<close> runs in its view: the value it leaves in \<open>result\<close> (nil unless
  assigned) and the error it returns.
\<close>

definition GetOne_seek ::
  "'d libs \<Rightarrow> BoltLocknut \<Rightarrow> string \<Rightarrow> string \<Rightarrow> store \<Rightarrow> bytes \<times> error option" where
  "GetOne_seek L bl bname key s =
     (case tx_Bucket s bname of
        None \<Rightarrow> ([], Some ErrBucketNotFound)
      | Some bkt \<Rightarrow>
          (case cursor_kv (cursor_Seek bkt key) of
             (k, content) \<Rightarrow>
               (case k of
                  None \<Rightarrow> ([], None)
                | Some k' \<Rightarrow>
                    if prefix key k' then
                      (if secret bl \<noteq> None then
                         (case Decrypt L content (slice_bytes (secret bl)) of
                            Inl e \<Rightarrow> ([], Some (DecryptErrorFromDB e))
                          | Inr dec \<Rightarrow> (dec, None))
                       else (content, None))
                    else ([], None))))"

definition GetOne ::
  "'d libs \<Rightarrow> BoltLocknut \<Rightarrow> world \<Rightarrow> string \<Rightarrow> string \<Rightarrow> bytes outcome \<times> BoltLocknut \<times> world" where
  "GetOne L bl w bname key =
     (case openDB bl w of
        (Returns u (Some e), bl1, w1) \<Rightarrow> (Returns [] (Some e), bl1, w1)
      | (Panics, bl1, w1) \<Rightarrow> (Panics, bl1, w1)
      | (Returns u None, bl1, w1) \<Rightarrow>
          deferred_closeDB
            (if key = [] then (Returns [] (Some ErrKeyInvalid), bl1, w1)
             else case db bl1 of
               None \<Rightarrow> (Panics, bl1, w1)
             | Some c \<Rightarrow>
                 (case boltDB_view w1 c (GetOne_seek L bl1 bname key) of
                    (result, Some e) \<Rightarrow> (Returns [] (Some e), bl1, w1)
                  | (result, None) \<Rightarrow> (Returns result None, bl1, w1))))"

text \<open>
  The function \<open>Save\<close> runs in its update. The bucket handle is looked up first and
  used last, with no test for nil in between.
\<close>

definition Save_save ::
  "'d libs \<Rightarrow> BoltLocknut \<Rightarrow> string \<Rightarrow> string \<Rightarrow> 'd \<Rightarrow> store \<Rightarrow> bytes \<Rightarrow> txresult \<times> bytes" where
  "Save_save L bl bname key data s rnd =
     (let bkt = tx_Bucket s bname in
      case json_Marshal L data of
        Inl e \<Rightarrow> (Abort e, rnd)
      | Inr val \<Rightarrow>
          if secret bl \<noteq> None then
            (case Encrypt L rnd val (slice_bytes (secret bl)) of
               (Inl e, rnd') \<Rightarrow> (Abort (EncryptErrorFromDB e), rnd')
             | (Inr enc, rnd') \<Rightarrow> (Bucket_Put s bname bkt key enc, rnd'))
          else (Bucket_Put s bname bkt key val, rnd))"

text \<open>The work of an updating operation between the open and the deferred close.\<close>

definition run_update ::
  "BoltLocknut \<Rightarrow> world \<Rightarrow> (store \<Rightarrow> bytes \<Rightarrow> txresult \<times> bytes)
    \<Rightarrow> unit outcome \<times> BoltLocknut \<times> world" where
  "run_update bl w fn =
     (case db bl of
        None \<Rightarrow> (Panics, bl, w)
      | Some c \<Rightarrow> (case boltDB_update w c fn of (r, w') \<Rightarrow> (r, bl, w')))"

definition Save ::
  "'d libs \<Rightarrow> BoltLocknut \<Rightarrow> world \<Rightarrow> string \<Rightarrow> string \<Rightarrow> 'd option
    \<Rightarrow> unit outcome \<times> BoltLocknut \<times> world" where
  "Save L bl w bname key data =
     (case openDB bl w of
        (Returns u (Some e), bl1, w1) \<Rightarrow> (Returns () (Some e), bl1, w1)
      | (Panics, bl1, w1) \<Rightarrow> (Panics, bl1, w1)
      | (Returns u None, bl1, w1) \<Rightarrow>
          deferred_closeDB
            (case data of
               None \<Rightarrow> (Returns () (Some ErrDataNil), bl1, w1)
             | Some d \<Rightarrow> run_update bl1 w1 (Save_save L bl1 bname key d)))"

definition SaveBytes_save ::
  "'d libs \<Rightarrow> BoltLocknut \<Rightarrow> string \<Rightarrow> string \<Rightarrow> bytes \<Rightarrow> store \<Rightarrow> bytes \<Rightarrow> txresult \<times> bytes" where
  "SaveBytes_save L bl bname key data s rnd =
     (let bkt = tx_Bucket s bname in
      if secret bl \<noteq> None then
        (case Encrypt L rnd data (slice_bytes (secret bl)) of
           (Inl e, rnd') \<Rightarrow> (Abort (EncryptErrorFromDB e), rnd')
         | (Inr enc, rnd') \<Rightarrow> (Bucket_Put s bname bkt key enc, rnd'))
      else (Bucket_Put s bname bkt key data, rnd))"

definition SaveBytes ::
  "'d libs \<Rightarrow> BoltLocknut \<Rightarrow> world \<Rightarrow> string \<Rightarrow> string \<Rightarrow> bytes option
    \<Rightarrow> unit outcome \<times> BoltLocknut \<times> world" where
  "SaveBytes L bl w bname key data =
     (case openDB bl w of
        (Returns u (Some e), bl1, w1) \<Rightarrow> (Returns () (Some e), bl1, w1)
      | (Panics, bl1, w1) \<Rightarrow> (Panics, bl1, w1)
      | (Returns u None, bl1, w1) \<Rightarrow>
          deferred_closeDB
            (case data of
               None \<Rightarrow> (Returns () (Some ErrDataNil), bl1, w1)
             | Some d \<Rightarrow> run_update bl1 w1 (SaveBytes_save L bl1 bname key d)))"

definition Delete_delete :: "string \<Rightarrow> string \<Rightarrow> store \<Rightarrow> bytes \<Rightarrow> txresult \<times> bytes" where
  "Delete_delete bname key s rnd =
     (let bkt = tx_Bucket s bname in (Bucket_Delete s bname bkt key, rnd))"

definition Delete ::
  "BoltLocknut \<Rightarrow> world \<Rightarrow> string \<Rightarrow> string \<Rightarrow> unit outcome \<times> BoltLocknut \<times> world" where
  "Delete bl w bname key =
     (case openDB bl w of
        (Returns u (Some e), bl1, w1) \<Rightarrow> (Returns () (Some e), bl1, w1)
      | (Panics, bl1, w1) \<Rightarrow> (Panics, bl1, w1)
      | (Returns u None, bl1, w1) \<Rightarrow>
          deferred_closeDB
            (if key = [] then (Returns () (Some ErrDeleteKeyNil), bl1, w1)
             else run_update bl1 w1 (Delete_delete bname key)))"

text \<open>
  \<open>NewBoltLocknut\<close>. \<open>os.Stat\<close> fails on a path the file system does not hold. The
  handle returned is the one the deferred \<open>closeDB\<close> has acted on.
\<close>

definition NewBoltLocknut ::
  "'d libs \<Rightarrow> world \<Rightarrow> string \<Rightarrow> string \<Rightarrow> bytes option \<Rightarrow> bool \<Rightarrow> string list
    \<Rightarrow> BoltLocknut option outcome \<times> world" where
  "NewBoltLocknut L w nm pth sec mode bnames =
     (if pth \<noteq> [] \<and> (case fs w pth of None \<Rightarrow> True | Some n \<Rightarrow> \<not> IsDir n)
      then (Returns None (Some ErrPathInvalid), w)
      else
        let full = filepath_Join L pth nm in
        if (case fs w full of None \<Rightarrow> False | Some n \<Rightarrow> \<not> IsRegular n)
        then (Returns None (Some ErrFileNameInvalid), w)
        else
          let bl = SetSecret L
                \<lparr> name = nm, path = pth, fullPath = full, secret = None,
                  buckets = bnames, batchMode = mode, db = None \<rparr> sec in
          case openDB bl w of
            (Returns u (Some e), bl1, w1) \<Rightarrow> (Returns None (Some e), w1)
          | (Panics, bl1, w1) \<Rightarrow> (Panics, w1)
          | (Returns u None, bl1, w1) \<Rightarrow>
              (case closeDB bl1 w1 of (bl2, w2) \<Rightarrow> (Returns (Some bl2) None, w2)))"

text \<open>
  The public operations as requests, so that a statement can range over all of them:
  running one gives what it returned (the value dropped), the handle and the world.
\<close>

datatype 'd request =
    ReqGetOne string string
  | ReqGetByPrefix string string
  | ReqGetKeyList string string
  | ReqSave string string "'d option"
  | ReqSaveBytes string string "bytes option"
  | ReqDelete string string

definition status :: "'a outcome \<Rightarrow> unit outcome" where
  "status r = (case r of Returns x e \<Rightarrow> Returns () e | Panics \<Rightarrow> Panics)"

definition drop_value ::
  "'a outcome \<times> BoltLocknut \<times> world \<Rightarrow> unit outcome \<times> BoltLocknut \<times> world" where
  "drop_value x = (case x of (r, bl, w) \<Rightarrow> (status r, bl, w))"

fun run_request ::
  "'d libs \<Rightarrow> BoltLocknut \<Rightarrow> world \<Rightarrow> 'd request \<Rightarrow> unit outcome \<times> BoltLocknut \<times> world" where
  "run_request L bl w (ReqGetOne b k) = drop_value (GetOne L bl w b k)"
| "run_request L bl w (ReqGetByPrefix b p) = drop_value (GetByPrefix L bl w b p)"
| "run_request L bl w (ReqGetKeyList b p) = drop_value (GetKeyList bl w b p)"
| "run_request L bl w (ReqSave b k d) = drop_value (Save L bl w b k d)"
| "run_request L bl w (ReqSaveBytes b k d) = drop_value (SaveBytes L bl w b k d)"
| "run_request L bl w (ReqDelete b k) = drop_value (Delete bl w b k)"

text \<open>
  The handles a caller can hold: one the constructor returned, after any sequence of
  public calls, in whatever world each call finds.
\<close>

inductive reachable :: "'d libs \<Rightarrow> BoltLocknut \<Rightarrow> bool" for L :: "'d libs" where
  constructed:
    "NewBoltLocknut L w nm pth sec mode bnames = (Returns (Some bl) None, w')
      \<Longrightarrow> reachable L bl"
| after_SetSecret:
    "reachable L bl \<Longrightarrow> reachable L (SetSecret L bl sec)"
| after_SetBatchMode:
    "reachable L bl \<Longrightarrow> SetBatchMode bl w mode = (bl', w') \<Longrightarrow> reachable L bl'"
| after_request:
    "reachable L bl \<Longrightarrow> run_request L bl w req = (r, bl', w') \<Longrightarrow> reachable L bl'"

fun run_requests ::
  "'d libs \<Rightarrow> BoltLocknut \<Rightarrow> world \<Rightarrow> 'd request list \<Rightarrow> BoltLocknut \<times> world" where
  "run_requests L bl w [] = (bl, w)"
| "run_requests L bl w (req # reqs) =
     (case run_request L bl w req of (r, bl', w') \<Rightarrow> run_requests L bl' w' reqs)"

section \<open>Auxiliary notions for the proofs\<close>

text \<open>
  The data-model invariant on keys: no bucket of a store, and of any database file of a
  world, holds a record under the empty key.
\<close>

definition keys_nonempty :: "store \<Rightarrow> bool" where
  "keys_nonempty s = (\<forall>b bkt. s b = Some bkt \<longrightarrow> [] \<notin> fst ` set bkt)"

definition world_keys_nonempty :: "world \<Rightarrow> bool" where
  "world_keys_nonempty w = (\<forall>p s. fs w p = Some (DBFile s) \<longrightarrow> keys_nonempty s)"

text \<open>The function of an update commits only stores without empty keys.\<close>

definition commits_nonempty :: "(store \<Rightarrow> bytes \<Rightarrow> txresult \<times> bytes) \<Rightarrow> bool" where
  "commits_nonempty fn =
     (\<forall>s rnd s' rnd'. keys_nonempty s \<and> fn s rnd = (Commit s', rnd') \<longrightarrow> keys_nonempty s')"

text \<open>
  The shape every public operation has: open, work that leaves the handle and the
  connection counters alone and keeps the invariant on keys, deferred close.
\<close>

definition bracketed ::
  "BoltLocknut \<Rightarrow> world \<Rightarrow> unit outcome \<Rightarrow> BoltLocknut \<Rightarrow> world \<Rightarrow> bool" where
  "bracketed bl w r bl' w' =
     (\<exists>r0 bl1 w1 wb.
        openDB bl w = (r0, bl1, w1) \<and>
        (if r0 = Returns () None
         then closeDB bl1 wb = (bl', w') \<and> opens wb = opens w1 \<and> closes wb = closes w1
           \<and> (world_keys_nonempty w1 \<longrightarrow> world_keys_nonempty wb)
         else r = r0 \<and> bl' = bl1 \<and> w' = w1))"

text \<open>
  What holds of every handle a caller can hold: a secret is set, no configured bucket
  name is empty, and a connection held between calls is one of batch mode, on the
  handle's own file.
\<close>

definition handle_inv :: "BoltLocknut \<Rightarrow> bool" where
  "handle_inv bl =
     (secret bl \<noteq> None \<and> [] \<notin> set (buckets bl) \<and>
      (case db bl of None \<Rightarrow> True | Some c \<Rightarrow> batchMode bl \<and> c = BoltDB (fullPath bl)))"

text \<open>What an update returns for the outcome of its function.\<close>

definition tx_status :: "txresult \<Rightarrow> unit outcome" where
  "tx_status t = (case t of Commit s \<Rightarrow> Returns () None | Abort e \<Rightarrow> Returns () (Some e)
     | TxPanic \<Rightarrow> Panics)"

section \<open>An executable instance of the library interface\<close>

text \<open>
  A small stand-in for the library functions, so that the model runs on concrete inputs:
  sealing masks every byte with one byte derived from key and nonce and appends a
  16-byte tag; opening checks the tag and unmasks. It meets \<open>aead_contract\<close> and
  \<open>sum256_size\<close> and is used only to instantiate theorems.
\<close>

definition demo_mask :: "bytes \<Rightarrow> bytes \<Rightarrow> byte" where
  "demo_mask k n = foldr (XOR) (k @ n) 0"

definition demo_Seal :: "bytes \<Rightarrow> bytes \<Rightarrow> bytes \<Rightarrow> bytes" where
  "demo_Seal k n p = map (\<lambda>b. b XOR demo_mask k n) p @ replicate 16 (demo_mask k n)"

definition demo_Open :: "bytes \<Rightarrow> bytes \<Rightarrow> bytes \<Rightarrow> bytes option" where
  "demo_Open k n c =
     (if length c < 16 then None
      else if drop (length c - 16) c = replicate 16 (demo_mask k n)
        then Some (map (\<lambda>b. b XOR demo_mask k n) (take (length c - 16) c))
        else None)"

definition demo_Sum256 :: "bytes \<Rightarrow> bytes" where
  "demo_Sum256 s = replicate 32 (foldr (XOR) s 0)"

definition demo_Join :: "string \<Rightarrow> string \<Rightarrow> string" where
  "demo_Join p n = (if p = [] then n else p @ ''/'' @ n)"

definition demo_libs :: "bytes libs" where
  "demo_libs =
     \<lparr> sha256_Sum256 = demo_Sum256, gcm_Seal = demo_Seal, gcm_Open = demo_Open,
       json_Marshal = (\<lambda>d. Inr d), filepath_Join = demo_Join \<rparr>"

text \<open>
  Sample data, after the package's example program: a 32-byte key; a world with the
  working directory and no database file yet; the handle the constructor returns there
  for "test.db" with the buckets "pii" and "jids"; the same handle in batch mode with its
  connection open; worlds whose database holds records under "asdfasdf", "taylor" and
  "test", a record with an empty plaintext, and a record whose value is no payload.
\<close>

definition demo_key :: bytes where
  "demo_key = replicate 32 7"

definition demo_world :: world where
  "demo_world =
     \<lparr> fs = [''.'' \<mapsto> Directory], unopenable = (\<lambda>p. False),
       rand_Reader = replicate 12 1 @ replicate 12 2, opens = 0, closes = 0 \<rparr>"

definition demo_handle :: BoltLocknut where
  "demo_handle =
     \<lparr> name = ''test.db'', path = ''.'', fullPath = ''./test.db'', secret = Some demo_key,
       buckets = [''pii'', ''jids''], batchMode = False, db = None \<rparr>"

definition demo_batch_handle :: BoltLocknut where
  "demo_batch_handle = demo_handle\<lparr>batchMode := True, db := Some (BoltDB ''./test.db'')\<rparr>"

definition demo_nonce :: bytes where
  "demo_nonce = replicate 12 1"

definition demo_payload :: "bytes \<Rightarrow> bytes" where
  "demo_payload p = demo_nonce @ demo_Seal demo_key demo_nonce p"

definition demo_bucket :: bucket where
  "demo_bucket =
     [(''asdfasdf'', demo_payload [1]), (''taylor'', demo_payload [2, 3]),
      (''test'', demo_payload [])]"

definition demo_stored_world :: world where
  "demo_stored_world =
     demo_world\<lparr>fs := [''.'' \<mapsto> Directory,
       ''./test.db'' \<mapsto> DBFile [''pii'' \<mapsto> demo_bucket, ''jids'' \<mapsto> []]]\<rparr>"

definition demo_empty_value_world :: world where
  "demo_empty_value_world =
     demo_world\<lparr>fs := [''.'' \<mapsto> Directory,
       ''./test.db'' \<mapsto> DBFile [''pii'' \<mapsto> [(''user'', demo_payload [])]]]\<rparr>"

definition demo_corrupt_world :: world where
  "demo_corrupt_world =
     demo_world\<lparr>fs := [''.'' \<mapsto> Directory,
       ''./test.db'' \<mapsto> DBFile [''pii'' \<mapsto>
          [(''a'', demo_payload [1]), (''b'', [0, 0, 0]), (''c'', demo_payload [2])]]]\<rparr>"

section \<open>Properties of the library instance\<close>

lemma demo_Open_Seal: "demo_Open k n (demo_Seal k n p) = Some p"
proof -
  have "map ((\<lambda>b. b XOR demo_mask k n) \<circ> (\<lambda>b. b XOR demo_mask k n)) p = p"
    by (induction p) (simp_all add: xor.assoc)
  then show ?thesis
    by (simp add: demo_Open_def demo_Seal_def)
qed

lemma demo_aead_contract: "aead_contract demo_libs"
  by (simp add: aead_contract_def demo_libs_def demo_Open_Seal)

lemma demo_sum256_size: "sum256_size demo_libs"
  by (simp add: sum256_size_def demo_libs_def demo_Sum256_def)

section \<open>Encrypt and Decrypt\<close>

lemma aes_NewCipher_32: "length K = 32 \<Longrightarrow> aes_NewCipher K = Inr K"
  by (simp add: aes_NewCipher_def)

lemma Encrypt_result:
  assumes "aes_NewCipher K = Inr K" and "gcm_NonceSize \<le> length rnd"
  shows "Encrypt L rnd P K =
    (Inr (take gcm_NonceSize rnd @ gcm_Seal L K (take gcm_NonceSize rnd) P),
     drop gcm_NonceSize rnd)"
  using assms by (simp add: Encrypt_def io_ReadFull_def)

lemma Encrypt_Inr_cases:
  assumes "Encrypt L rnd P K = (Inr c, rnd')"
  shows "aes_NewCipher K = Inr K \<and> gcm_NonceSize \<le> length rnd
    \<and> c = take gcm_NonceSize rnd @ gcm_Seal L K (take gcm_NonceSize rnd) P
    \<and> rnd' = drop gcm_NonceSize rnd"
  using assms
  by (auto simp: Encrypt_def io_ReadFull_def aes_NewCipher_def split: if_splits)

lemma Decrypt_payload:
  assumes "aead_contract L" and "aes_NewCipher K = Inr K" and "length n = gcm_NonceSize"
  shows "Decrypt L (n @ gcm_Seal L K n P) K = Inr P"
proof -
  have len: "length K \<in> {16, 24, 32}"
    using assms(2) by (auto simp: aes_NewCipher_def split: if_splits)
  have "gcm_Open L K n (gcm_Seal L K n P) = Some P"
    using assms(1,3) len by (simp add: aead_contract_def gcm_NonceSize_def)
  then show ?thesis
    using assms(2,3) by (simp add: Decrypt_def)
qed

text \<open>
  C1. Round trip of the receiverless functions: under a 32-byte key, whenever the random
  source delivers the nonce Encrypt returns a payload, and every payload Encrypt returns
  is decrypted by Decrypt, under the same key, to exactly the plaintext. The cipher is
  any one that meets the AEAD contract.
\<close>

theorem Decrypt_Encrypt_roundtrip:
  assumes "aead_contract L" and "length K = 32"
  shows "(gcm_NonceSize \<le> length rnd \<longrightarrow> (\<exists>c. fst (Encrypt L rnd P K) = Inr c))
    \<and> (\<forall>c. fst (Encrypt L rnd P K) = Inr c \<longrightarrow> Decrypt L c K = Inr P)"
proof (intro conjI allI impI)
  assume "gcm_NonceSize \<le> length rnd"
  from Encrypt_result [OF aes_NewCipher_32 [OF assms(2)] this, of L P]
  show "\<exists>c. fst (Encrypt L rnd P K) = Inr c"
    by simp
next
  fix c
  assume "fst (Encrypt L rnd P K) = Inr c"
  then have "Encrypt L rnd P K = (Inr c, snd (Encrypt L rnd P K))"
    by (metis prod.collapse)
  from Encrypt_Inr_cases [OF this]
  have k: "aes_NewCipher K = Inr K" and r: "gcm_NonceSize \<le> length rnd"
    and c: "c = take gcm_NonceSize rnd @ gcm_Seal L K (take gcm_NonceSize rnd) P"
    by simp_all
  have "length (take gcm_NonceSize rnd) = gcm_NonceSize"
    using r by simp
  from Decrypt_payload [OF assms(1) k this] c show "Decrypt L c K = Inr P"
    by simp
qed

theorem Decrypt_Encrypt_roundtrip_witness:
  "aead_contract demo_libs \<and> length (replicate 32 (7::byte)) = 32
   \<and> fst (Encrypt demo_libs (map of_nat [1..<13]) [104, 105] (replicate 32 7))
      = Inr (map of_nat [1..<13] @ [100, 101] @ replicate 16 12)
   \<and> Decrypt demo_libs (map of_nat [1..<13] @ [100, 101] @ replicate 16 12) (replicate 32 7)
      = Inr [104, 105]"
proof -
  have e: "fst (Encrypt demo_libs (map of_nat [1..<13]) [104, 105] (replicate 32 7))
      = Inr (map of_nat [1..<13] @ [100, 101] @ replicate 16 12)"
    by (simp add: Encrypt_def aes_NewCipher_def io_ReadFull_def gcm_NonceSize_def
        demo_libs_def demo_Seal_def demo_mask_def upt_rec numeral_eq_Suc)
  have l: "length (replicate 32 (7::byte)) = 32"
    by simp
  from Decrypt_Encrypt_roundtrip [OF demo_aead_contract l,
      of "map of_nat [1..<13]" "[104, 105]"] e
  show ?thesis
    using demo_aead_contract by simp
qed

section \<open>Opening and closing the connection\<close>


lemma initbuckets_Inr:
  "initbuckets bs s = Inr s' \<Longrightarrow>
     s' = (\<lambda>b. if s b = None \<and> b \<in> set bs then Some [] else s b) \<and> [] \<notin> set bs"
proof (induction bs arbitrary: s)
  case Nil
  then show ?case by auto
next
  case (Cons b bs)
  then show ?case
    by (auto simp: tx_CreateBucketIfNotExists_def fun_eq_iff split: if_splits option.splits sum.splits)
qed

lemma initbuckets_Inl:
  "initbuckets bs s = Inl e \<Longrightarrow> e = ErrBucketNameRequired \<and> [] \<in> set bs"
  by (induction bs arbitrary: s)
     (auto simp: tx_CreateBucketIfNotExists_def split: if_splits option.splits sum.splits)

lemma initbuckets_total:
  "[] \<notin> set bs \<Longrightarrow> \<exists>s'. initbuckets bs s = Inr s'"
  by (cases "initbuckets bs s") (auto dest: initbuckets_Inl)

lemma openDB_kept:
  "batchMode bl \<Longrightarrow> db bl \<noteq> None \<Longrightarrow> openDB bl w = (Returns () None, bl, w)"
  by (simp add: openDB_def)

lemma bbolt_Open_Inr:
  "bbolt_Open w p = Inr w1 \<Longrightarrow>
     \<not> unopenable w p \<and> opens w1 = Suc (opens w) \<and> closes w1 = closes w
     \<and> rand_Reader w1 = rand_Reader w \<and> unopenable w1 = unopenable w
     \<and> (\<exists>s. fs w1 p = Some (DBFile s) \<and> fs w1 = (fs w)(p \<mapsto> DBFile s)
          \<and> (fs w p = None \<and> s = Map.empty \<or> fs w p = Some (DBFile s)))"
  by (auto simp: bbolt_Open_def split: if_splits option.splits fnode.splits)

lemma bbolt_Open_Inl: "bbolt_Open w p = Inl e \<Longrightarrow> e = ErrOpenFailed"
  by (auto simp: bbolt_Open_def split: if_splits option.splits fnode.splits)

lemma boltDB_update_initbuckets:
  "boltDB_update w1 (BoltDB p)
     (\<lambda>s rnd. (case initbuckets bs s of Inl e \<Rightarrow> Abort e | Inr s' \<Rightarrow> Commit s', rnd)) =
   (case initbuckets bs (conn_store w1 (BoltDB p)) of
      Inl e \<Rightarrow> (Returns () (Some e), w1\<lparr>rand_Reader := rand_Reader w1\<rparr>)
    | Inr s' \<Rightarrow> (Returns () None, w1\<lparr>fs := (fs w1)(p \<mapsto> DBFile s'), rand_Reader := rand_Reader w1\<rparr>))"
  by (cases "initbuckets bs (conn_store w1 (BoltDB p))") (simp_all add: boltDB_update_def)

lemma openDB_Open_failed:
  assumes "\<not> (batchMode bl \<and> db bl \<noteq> None)" and "bbolt_Open w (fullPath bl) = Inl e"
  shows "openDB bl w = (Returns () (Some e), bl, w)"
proof -
  have c: "(batchMode bl \<and> db bl \<noteq> None) = False"
    using assms(1) by blast
  show ?thesis
    unfolding openDB_def c by (simp add: assms(2))
qed

lemma openDB_init_failed:
  assumes "\<not> (batchMode bl \<and> db bl \<noteq> None)" and "bbolt_Open w (fullPath bl) = Inr w0"
    and "initbuckets (buckets bl) (conn_store w0 (BoltDB (fullPath bl))) = Inl e"
  shows "openDB bl w = (Returns () (Some e), bl, db_Close (w0\<lparr>rand_Reader := rand_Reader w0\<rparr>))"
proof -
  have c: "(batchMode bl \<and> db bl \<noteq> None) = False"
    using assms(1) by blast
  show ?thesis
    unfolding openDB_def c by (simp add: assms(2,3) boltDB_update_initbuckets)
qed

lemma openDB_ok:
  assumes "\<not> (batchMode bl \<and> db bl \<noteq> None)" and "bbolt_Open w (fullPath bl) = Inr w0"
    and "initbuckets (buckets bl) (conn_store w0 (BoltDB (fullPath bl))) = Inr s'"
  shows "openDB bl w = (Returns () None, bl\<lparr>db := Some (BoltDB (fullPath bl))\<rparr>,
     w0\<lparr>fs := (fs w0)(fullPath bl \<mapsto> DBFile s'), rand_Reader := rand_Reader w0\<rparr>)"
proof -
  have c: "(batchMode bl \<and> db bl \<noteq> None) = False"
    using assms(1) by blast
  show ?thesis
    unfolding openDB_def c by (simp add: assms(2,3) boltDB_update_initbuckets)
qed

lemma openDB_opened:
  assumes nb: "\<not> (batchMode bl \<and> db bl \<noteq> None)" and op: "openDB bl w = (r, bl1, w1)"
  shows "(r = Returns () (Some ErrOpenFailed) \<and> bl1 = bl \<and> w1 = w)
       \<or> (r = Returns () (Some ErrBucketNameRequired) \<and> bl1 = bl \<and> [] \<in> set (buckets bl)
            \<and> opens w1 = Suc (opens w) \<and> closes w1 = Suc (closes w))
       \<or> (r = Returns () None \<and> bl1 = bl\<lparr>db := Some (BoltDB (fullPath bl))\<rparr>
            \<and> [] \<notin> set (buckets bl)
            \<and> opens w1 = Suc (opens w) \<and> closes w1 = closes w
            \<and> rand_Reader w1 = rand_Reader w)"
proof (cases "bbolt_Open w (fullPath bl)")
  case (Inl e)
  from openDB_Open_failed [OF nb Inl] op bbolt_Open_Inl [OF Inl]
  show ?thesis by simp
next
  case (Inr w0)
  note o = bbolt_Open_Inr [OF Inr]
  show ?thesis
  proof (cases "initbuckets (buckets bl) (conn_store w0 (BoltDB (fullPath bl)))")
    case (Inl e)
    from openDB_init_failed [OF nb Inr Inl] op initbuckets_Inl [OF Inl] o
    show ?thesis by (simp add: db_Close_def)
  next
    case (Inr s')
    from openDB_ok [OF nb \<open>bbolt_Open w (fullPath bl) = Inr w0\<close> Inr] op initbuckets_Inr [OF Inr] o
    show ?thesis by simp
  qed
qed


lemma openDB_cases:
  assumes op: "openDB bl w = (r, bl1, w1)"
  shows "(batchMode bl \<and> db bl \<noteq> None \<and> r = Returns () None \<and> bl1 = bl \<and> w1 = w)
       \<or> (\<not> (batchMode bl \<and> db bl \<noteq> None) \<and>
           ((r = Returns () (Some ErrOpenFailed) \<and> bl1 = bl \<and> w1 = w)
          \<or> (r = Returns () (Some ErrBucketNameRequired) \<and> bl1 = bl \<and> [] \<in> set (buckets bl)
               \<and> opens w1 = Suc (opens w) \<and> closes w1 = Suc (closes w))
          \<or> (r = Returns () None \<and> bl1 = bl\<lparr>db := Some (BoltDB (fullPath bl))\<rparr>
               \<and> [] \<notin> set (buckets bl)
               \<and> opens w1 = Suc (opens w) \<and> closes w1 = closes w
               \<and> rand_Reader w1 = rand_Reader w)))"
proof (cases "batchMode bl \<and> db bl \<noteq> None")
  case True
  then have "openDB bl w = (Returns () None, bl, w)"
    by (simp add: openDB_kept)
  with op True show ?thesis by simp
next
  case False
  from openDB_opened [OF False op] False show ?thesis by blast
qed

lemma openDB_not_Panics: "openDB bl w = (r, bl1, w1) \<Longrightarrow> r \<noteq> Panics"
  using openDB_cases [of bl w r bl1 w1] by auto

lemma openDB_success_db:
  "openDB bl w = (Returns () None, bl1, w1) \<Longrightarrow> \<exists>c. db bl1 = Some c \<and> bl1 = bl\<lparr>db := Some c\<rparr>"
  using openDB_cases [of bl w "Returns () None" bl1 w1] by auto

lemma boltDB_update_counters:
  "boltDB_update w c fn = (r, w') \<Longrightarrow> opens w' = opens w \<and> closes w' = closes w"
  by (cases c) (auto simp: boltDB_update_def split: prod.splits txresult.splits)

lemma run_update_counters:
  "run_update bl w fn = (r, bl', w') \<Longrightarrow> bl' = bl \<and> opens w' = opens w \<and> closes w' = closes w"
  by (auto simp: run_update_def split: option.splits prod.splits dest: boltDB_update_counters)

lemma conn_store_keys: "world_keys_nonempty w \<Longrightarrow> keys_nonempty (conn_store w c)"
  by (cases c)
     (auto simp: world_keys_nonempty_def conn_store_def keys_nonempty_def
       split: option.splits fnode.splits)

lemma boltDB_update_keys:
  assumes "boltDB_update w c fn = (r, w')" and "commits_nonempty fn" and "world_keys_nonempty w"
  shows "world_keys_nonempty w'"
proof -
  obtain t rnd' where f: "fn (conn_store w c) (rand_Reader w) = (t, rnd')"
    by (cases "fn (conn_store w c) (rand_Reader w)")
  obtain p where c: "c = BoltDB p"
    by (cases c)
  show ?thesis
  proof (cases t)
    case (Commit s')
    with assms(2) f conn_store_keys [OF assms(3), of c] have "keys_nonempty s'"
      unfolding commits_nonempty_def by blast
    moreover from assms(1) f Commit c
    have "fs w' = (fs w)(p \<mapsto> DBFile s')"
      by (auto simp: boltDB_update_def)
    ultimately show ?thesis
      using assms(3) by (simp add: world_keys_nonempty_def)
  next
    case (Abort e)
    with assms(1) f have "fs w' = fs w"
      by (auto simp: boltDB_update_def)
    with assms(3) show ?thesis
      by (simp add: world_keys_nonempty_def)
  next
    case TxPanic
    with assms(1) f have "fs w' = fs w"
      by (auto simp: boltDB_update_def)
    with assms(3) show ?thesis
      by (simp add: world_keys_nonempty_def)
  qed
qed

lemma run_update_keys:
  assumes "run_update bl w fn = (r, bl', w')" and "commits_nonempty fn"
    and "world_keys_nonempty w"
  shows "world_keys_nonempty w'"
  using assms
  by (auto simp: run_update_def split: option.splits prod.splits dest: boltDB_update_keys)

lemma bracketedI_closed:
  assumes "openDB bl w = (Returns () None, bl1, w1)"
    and "deferred_closeDB (rb, bl1, wb) = (r, bl', w')"
    and "opens wb = opens w1" "closes wb = closes w1"
    and "world_keys_nonempty w1 \<Longrightarrow> world_keys_nonempty wb"
  shows "bracketed bl w (status r) bl' w'"
  using assms unfolding bracketed_def deferred_closeDB_def
  by (auto split: prod.splits)

lemma bracketedI_failed:
  assumes "openDB bl w = (Returns () (Some e), bl1, w1)"
  shows "bracketed bl w (Returns () (Some e)) bl1 w1"
  using assms unfolding bracketed_def by auto

lemma openDB_result:
  obtains (ok) bl1 w1 where "openDB bl w = (Returns () None, bl1, w1)"
  | (err) e bl1 w1 where "openDB bl w = (Returns () (Some e), bl1, w1)"
proof -
  obtain r bl1 w1 where o: "openDB bl w = (r, bl1, w1)"
    by (metis prod_cases3)
  from openDB_cases [OF o] o show thesis
    using ok err by auto
qed

lemma GetOne_bracketed:
  assumes "GetOne L bl w b k = (r, bl', w')"
  shows "bracketed bl w (status r) bl' w'"
proof (cases bl w rule: openDB_result)
  case (ok bl1 w1)
  from assms ok show ?thesis
    by (auto simp: GetOne_def boltDB_view_def split: if_splits option.splits prod.splits
        intro: bracketedI_closed [OF ok _ refl refl])
next
  case (err e bl1 w1)
  with assms have "r = Returns [] (Some e)" "bl' = bl1" "w' = w1"
    by (simp_all add: GetOne_def)
  with bracketedI_failed [OF err] show ?thesis
    by (simp add: status_def)
qed

lemma GetByPrefix_bracketed:
  assumes "GetByPrefix L bl w b p = (r, bl', w')"
  shows "bracketed bl w (status r) bl' w'"
proof (cases bl w rule: openDB_result)
  case (ok bl1 w1)
  from assms ok show ?thesis
    by (auto simp: GetByPrefix_def boltDB_view_def split: if_splits option.splits prod.splits
        intro: bracketedI_closed [OF ok _ refl refl])
next
  case (err e bl1 w1)
  with assms have "r = Returns Map.empty (Some e)" "bl' = bl1" "w' = w1"
    by (simp_all add: GetByPrefix_def)
  with bracketedI_failed [OF err] show ?thesis
    by (simp add: status_def)
qed

lemma GetKeyList_bracketed:
  assumes "GetKeyList bl w b p = (r, bl', w')"
  shows "bracketed bl w (status r) bl' w'"
proof (cases bl w rule: openDB_result)
  case (ok bl1 w1)
  from assms ok show ?thesis
    by (auto simp: GetKeyList_def boltDB_view_def split: if_splits option.splits prod.splits
        intro: bracketedI_closed [OF ok _ refl refl])
next
  case (err e bl1 w1)
  with assms have "r = Returns [] (Some e)" "bl' = bl1" "w' = w1"
    by (simp_all add: GetKeyList_def)
  with bracketedI_failed [OF err] show ?thesis
    by (simp add: status_def)
qed

lemma run_update_bracket:
  assumes "openDB bl w = (Returns () None, bl1, w1)"
    and "deferred_closeDB (run_update bl1 w1 fn) = (r, bl', w')"
    and "commits_nonempty fn"
  shows "bracketed bl w (status r) bl' w'"
proof -
  obtain rb blb wb where ru: "run_update bl1 w1 fn = (rb, blb, wb)"
    by (metis prod_cases3)
  from run_update_counters [OF ru] have "blb = bl1" "opens wb = opens w1" "closes wb = closes w1"
    by simp_all
  with bracketedI_closed [OF assms(1), of rb wb r bl' w'] assms(2) ru
    run_update_keys [OF ru assms(3)]
  show ?thesis
    by simp
qed

lemma set_bucket_insert: "set (bucket_insert k v b) \<subseteq> insert (k, v) (set b)"
  by (induction b) (auto split: if_splits)

lemma Bucket_Put_keys:
  assumes "keys_nonempty s" and "Bucket_Put s b (tx_Bucket s b) k v = Commit s'"
  shows "keys_nonempty s'"
proof -
  from assms(2) obtain bkt where b: "s b = Some bkt" and k: "k \<noteq> []"
    and s': "s' = s(b \<mapsto> bucket_insert k v bkt)"
    by (auto simp: Bucket_Put_def tx_Bucket_def split: option.splits if_splits)
  from assms(1) b have "[] \<notin> fst ` set bkt"
    by (simp add: keys_nonempty_def)
  with k set_bucket_insert [of k v bkt] have "[] \<notin> fst ` set (bucket_insert k v bkt)"
    by force
  with assms(1) show ?thesis
    unfolding s' keys_nonempty_def by simp
qed

lemma Bucket_Delete_keys:
  assumes "keys_nonempty s" and "Bucket_Delete s b (tx_Bucket s b) k = Commit s'"
  shows "keys_nonempty s'"
proof -
  from assms(2) obtain bkt where b: "s b = Some bkt"
    and s': "s' = s(b \<mapsto> filter (\<lambda>(k', v). k' \<noteq> k) bkt)"
    by (auto simp: Bucket_Delete_def tx_Bucket_def split: option.splits)
  from assms(1) b have "[] \<notin> fst ` set bkt"
    by (simp add: keys_nonempty_def)
  then have "[] \<notin> fst ` set (filter (\<lambda>(k', v). k' \<noteq> k) bkt)"
    by force
  with assms(1) show ?thesis
    unfolding s' keys_nonempty_def by simp
qed

lemma Save_save_commits: "commits_nonempty (Save_save L bl b k d)"
  unfolding commits_nonempty_def
  by (auto simp: Save_save_def Let_def split: sum.splits prod.splits if_splits
      dest: Bucket_Put_keys)

lemma SaveBytes_save_commits: "commits_nonempty (SaveBytes_save L bl b k d)"
  unfolding commits_nonempty_def
  by (auto simp: SaveBytes_save_def Let_def split: sum.splits prod.splits if_splits
      dest: Bucket_Put_keys)

lemma Delete_delete_commits: "commits_nonempty (Delete_delete b k)"
  unfolding commits_nonempty_def
  by (auto simp: Delete_delete_def Let_def dest: Bucket_Delete_keys)

lemma Save_bracketed:
  assumes "Save L bl w b k d = (r, bl', w')"
  shows "bracketed bl w (status r) bl' w'"
proof (cases bl w rule: openDB_result)
  case (ok bl1 w1)
  from assms ok show ?thesis
    by (auto simp: Save_def split: if_splits option.splits
        intro: bracketedI_closed [OF ok _ refl refl]
        dest!: run_update_bracket [OF ok _ Save_save_commits])
next
  case (err e bl1 w1)
  with assms have "r = Returns () (Some e)" "bl' = bl1" "w' = w1"
    by (simp_all add: Save_def)
  with bracketedI_failed [OF err] show ?thesis
    by (simp add: status_def)
qed

lemma SaveBytes_bracketed:
  assumes "SaveBytes L bl w b k d = (r, bl', w')"
  shows "bracketed bl w (status r) bl' w'"
proof (cases bl w rule: openDB_result)
  case (ok bl1 w1)
  from assms ok show ?thesis
    by (auto simp: SaveBytes_def split: if_splits option.splits
        intro: bracketedI_closed [OF ok _ refl refl]
        dest!: run_update_bracket [OF ok _ SaveBytes_save_commits])
next
  case (err e bl1 w1)
  with assms have "r = Returns () (Some e)" "bl' = bl1" "w' = w1"
    by (simp_all add: SaveBytes_def)
  with bracketedI_failed [OF err] show ?thesis
    by (simp add: status_def)
qed

lemma Delete_bracketed:
  assumes "Delete bl w b k = (r, bl', w')"
  shows "bracketed bl w (status r) bl' w'"
proof (cases bl w rule: openDB_result)
  case (ok bl1 w1)
  from assms ok show ?thesis
    by (auto simp: Delete_def split: if_splits option.splits
        intro: bracketedI_closed [OF ok _ refl refl]
        dest!: run_update_bracket [OF ok _ Delete_delete_commits])
next
  case (err e bl1 w1)
  with assms have "r = Returns () (Some e)" "bl' = bl1" "w' = w1"
    by (simp_all add: Delete_def)
  with bracketedI_failed [OF err] show ?thesis
    by (simp add: status_def)
qed

lemma run_request_bracketed:
  assumes "run_request L bl w req = (r, bl', w')"
  shows "bracketed bl w r bl' w'"
proof (cases req)
  case (ReqGetOne b k)
  with assms show ?thesis
    by (auto simp: drop_value_def split: prod.splits dest: GetOne_bracketed)
next
  case (ReqGetByPrefix b p)
  with assms show ?thesis
    by (auto simp: drop_value_def split: prod.splits dest: GetByPrefix_bracketed)
next
  case (ReqGetKeyList b p)
  with assms show ?thesis
    by (auto simp: drop_value_def split: prod.splits dest: GetKeyList_bracketed)
next
  case (ReqSave b k d)
  with assms show ?thesis
    by (auto simp: drop_value_def split: prod.splits dest: Save_bracketed)
next
  case (ReqSaveBytes b k d)
  with assms show ?thesis
    by (auto simp: drop_value_def split: prod.splits dest: SaveBytes_bracketed)
next
  case (ReqDelete b k)
  with assms show ?thesis
    by (auto simp: drop_value_def split: prod.splits dest: Delete_bracketed)
qed


lemma bracketed_config:
  assumes "bracketed bl w r bl' w'"
  shows "bl' = bl\<lparr>db := db bl'\<rparr>"
proof -
  from assms obtain r0 bl1 w1 wb where o: "openDB bl w = (r0, bl1, w1)"
    and c: "if r0 = Returns () None
         then closeDB bl1 wb = (bl', w') \<and> opens wb = opens w1 \<and> closes wb = closes w1
           \<and> (world_keys_nonempty w1 \<longrightarrow> world_keys_nonempty wb)
         else r = r0 \<and> bl' = bl1 \<and> w' = w1"
    unfolding bracketed_def by blast
  have 1: "bl1 = bl\<lparr>db := db bl1\<rparr>"
    using openDB_cases [OF o] by auto
  have "bl' = bl1\<lparr>db := db bl'\<rparr>"
    using c by (auto simp: closeDB_def split: if_splits)
  with 1 show ?thesis
    by (metis BoltLocknut.update_convs(7) BoltLocknut.surjective)
qed


lemma bracketed_closing:
  assumes b: "bracketed bl w r bl' w'" and nb: "\<not> batchMode bl" and n: "db bl = None"
  shows "db bl' = None \<and>
    (opens w' = Suc (opens w) \<and> closes w' = Suc (closes w)
     \<or> r = Returns () (Some ErrOpenFailed) \<and> w' = w)"
proof -
  from b obtain r0 bl1 w1 wb where o: "openDB bl w = (r0, bl1, w1)"
    and c: "if r0 = Returns () None
         then closeDB bl1 wb = (bl', w') \<and> opens wb = opens w1 \<and> closes wb = closes w1
           \<and> (world_keys_nonempty w1 \<longrightarrow> world_keys_nonempty wb)
         else r = r0 \<and> bl' = bl1 \<and> w' = w1"
    unfolding bracketed_def by blast
  from openDB_cases [OF o] nb n c show ?thesis
    by (auto simp: closeDB_def db_Close_def split: if_splits)
qed

lemma bracketed_batch_kept:
  assumes b: "bracketed bl w r bl' w'" and bm: "batchMode bl" and n: "db bl = Some c"
  shows "db bl' = Some c \<and> opens w' = opens w \<and> closes w' = closes w"
proof -
  from b obtain r0 bl1 w1 wb where o: "openDB bl w = (r0, bl1, w1)"
    and c: "if r0 = Returns () None
         then closeDB bl1 wb = (bl', w') \<and> opens wb = opens w1 \<and> closes wb = closes w1
           \<and> (world_keys_nonempty w1 \<longrightarrow> world_keys_nonempty wb)
         else r = r0 \<and> bl' = bl1 \<and> w' = w1"
    unfolding bracketed_def by blast
  from openDB_cases [OF o] bm n c show ?thesis
    by (auto simp: closeDB_def split: if_splits)
qed

lemma bracketed_batch_opening:
  assumes b: "bracketed bl w r bl' w'" and bm: "batchMode bl" and n: "db bl = None"
  shows "db bl' = Some (BoltDB (fullPath bl)) \<and> opens w' = Suc (opens w) \<and> closes w' = closes w
    \<or> db bl' = None \<and> (\<exists>e. r = Returns () (Some e))
        \<and> opens w' - opens w = closes w' - closes w"
proof -
  from b obtain r0 bl1 w1 wb where o: "openDB bl w = (r0, bl1, w1)"
    and c: "if r0 = Returns () None
         then closeDB bl1 wb = (bl', w') \<and> opens wb = opens w1 \<and> closes wb = closes w1
           \<and> (world_keys_nonempty w1 \<longrightarrow> world_keys_nonempty wb)
         else r = r0 \<and> bl' = bl1 \<and> w' = w1"
    unfolding bracketed_def by blast
  from openDB_cases [OF o] bm n c show ?thesis
    by (auto simp: closeDB_def split: if_splits)
qed

lemma SetSecret_secret: "secret (SetSecret L bl sec) \<noteq> None"
  by (cases sec) (auto simp: SetSecret_def slice_bytes_def Let_def)

lemma SetSecret_fields:
  "db (SetSecret L bl sec) = db bl" "buckets (SetSecret L bl sec) = buckets bl"
  "batchMode (SetSecret L bl sec) = batchMode bl" "fullPath (SetSecret L bl sec) = fullPath bl"
  by (simp_all add: SetSecret_def Let_def)

lemma SetSecret_inv: "handle_inv bl \<Longrightarrow> handle_inv (SetSecret L bl sec)"
  using SetSecret_secret [of L bl sec]
  by (auto simp: handle_inv_def SetSecret_fields split: option.splits)

lemma SetBatchMode_inv:
  assumes "handle_inv bl" and "SetBatchMode bl w mode = (bl', w')"
  shows "handle_inv bl'"
  using assms
  by (auto simp: handle_inv_def SetBatchMode_def closeDB_def Let_def split: if_splits option.splits)

lemma bracketed_inv:
  assumes b: "bracketed bl w r bl' w'" and i: "handle_inv bl"
  shows "handle_inv bl'"
proof -
  note c = bracketed_config [OF b]
  have s: "secret bl' = secret bl" "buckets bl' = buckets bl" "fullPath bl' = fullPath bl"
    "batchMode bl' = batchMode bl"
    by (subst c, simp)+
  show ?thesis
  proof (cases "db bl")
    case None
    show ?thesis
    proof (cases "batchMode bl")
      case True
      from bracketed_batch_opening [OF b True None] i s True show ?thesis
        by (auto simp: handle_inv_def)
    next
      case False
      from bracketed_closing [OF b False None] i s show ?thesis
        by (auto simp: handle_inv_def)
    qed
  next
    case (Some c)
    with i have bm: "batchMode bl"
      by (simp add: handle_inv_def)
    from bracketed_batch_kept [OF b bm Some] i s Some show ?thesis
      by (auto simp: handle_inv_def)
  qed
qed

lemma NewBoltLocknut_inv:
  assumes "NewBoltLocknut L w nm pth sec mode bnames = (Returns (Some bl) None, w')"
  shows "handle_inv bl"
proof -
  define bl0 where "bl0 = SetSecret L
                \<lparr> name = nm, path = pth, fullPath = filepath_Join L pth nm, secret = None,
                  buckets = bnames, batchMode = mode, db = None \<rparr> sec"
  have d0: "db bl0 = None" and s0: "secret bl0 \<noteq> None"
    and b0: "buckets bl0 = bnames" "fullPath bl0 = filepath_Join L pth nm" "batchMode bl0 = mode"
    unfolding bl0_def by (simp_all add: SetSecret_fields SetSecret_secret)
  obtain r1 bl1 w1 where o: "openDB bl0 w = (r1, bl1, w1)"
    by (metis prod_cases3)
  from assms o have r1: "r1 = Returns () None" and c: "closeDB bl1 w1 = (bl, w')"
    by (auto simp: NewBoltLocknut_def Let_def bl0_def [symmetric]
        split: if_splits prod.splits outcome.splits option.splits)
  from openDB_cases [OF o] r1 d0
  have bl1: "bl1 = bl0\<lparr>db := Some (BoltDB (fullPath bl0))\<rparr>" and e: "[] \<notin> set (buckets bl0)"
    by auto
  from c bl1 e s0 show ?thesis
    by (auto simp: handle_inv_def closeDB_def split: if_splits)
qed

lemma reachable_inv: "reachable L bl \<Longrightarrow> handle_inv bl"
proof (induction rule: reachable.induct)
  case (constructed w nm pth sec mode bnames bl w')
  then show ?case by (rule NewBoltLocknut_inv)
next
  case (after_SetSecret bl sec)
  then show ?case by (simp add: SetSecret_inv)
next
  case (after_SetBatchMode bl w mode bl' w')
  then show ?case by (blast intro: SetBatchMode_inv)
next
  case (after_request bl w req r bl' w')
  then show ?case by (blast intro: bracketed_inv run_request_bracketed)
qed

section \<open>The connection lifecycle\<close>

lemma demo_openDB:
  "openDB demo_handle demo_world =
    (Returns () None, demo_handle\<lparr>db := Some (BoltDB ''./test.db'')\<rparr>,
     demo_world\<lparr>fs := [''.'' \<mapsto> Directory,
         ''./test.db'' \<mapsto> DBFile [''pii'' \<mapsto> [], ''jids'' \<mapsto> []]], opens := 1\<rparr>)"
  by (simp add: openDB_def demo_handle_def demo_world_def bbolt_Open_def boltDB_update_def
      conn_store_def tx_CreateBucketIfNotExists_def)

lemma demo_constructed:
  "NewBoltLocknut demo_libs demo_world ''test.db'' ''.'' (Some demo_key) False [''pii'', ''jids'']
    = (Returns (Some demo_handle) None,
       demo_world\<lparr>fs := [''.'' \<mapsto> Directory,
         ''./test.db'' \<mapsto> DBFile [''pii'' \<mapsto> [], ''jids'' \<mapsto> []]], opens := 1, closes := 1\<rparr>)"
proof -
  have j: "filepath_Join demo_libs ''.'' ''test.db'' = ''./test.db''"
    by (simp add: demo_libs_def demo_Join_def)
  have s: "SetSecret demo_libs
      \<lparr> name = ''test.db'', path = ''.'', fullPath = ''./test.db'', secret = None,
        buckets = [''pii'', ''jids''], batchMode = False, db = None \<rparr> (Some demo_key) = demo_handle"
    by (simp add: SetSecret_def slice_bytes_def demo_key_def demo_handle_def)
  have f: "fs demo_world ''.'' = Some Directory" "fs demo_world ''./test.db'' = None"
    by (simp_all add: demo_world_def)
  show ?thesis
    unfolding NewBoltLocknut_def j Let_def s demo_openDB
    by (simp add: f IsDir_def closeDB_def demo_handle_def db_Close_def demo_world_def)
qed

lemma demo_reachable: "reachable demo_libs demo_handle"
  by (rule reachable.constructed [OF demo_constructed])

lemma reachable_closed: "reachable L bl \<Longrightarrow> \<not> batchMode bl \<Longrightarrow> db bl = None"
  by (drule reachable_inv) (auto simp: handle_inv_def split: option.splits)

lemma run_requests_batch_kept:
  assumes "batchMode bl" and "db bl = Some c" and "run_requests L bl w reqs = (bl', w')"
  shows "batchMode bl' \<and> db bl' = Some c \<and> opens w' = opens w \<and> closes w' = closes w"
  using assms
proof (induction reqs arbitrary: bl w)
  case Nil
  then show ?case by simp
next
  case (Cons req reqs)
  obtain r bl1 w1 where s: "run_request L bl w req = (r, bl1, w1)"
    by (metis prod_cases3)
  note b = run_request_bracketed [OF s]
  from bracketed_batch_kept [OF b Cons.prems(1,2)]
  have k: "db bl1 = Some c" "opens w1 = opens w" "closes w1 = closes w"
    by simp_all
  have "batchMode bl1 = batchMode bl"
    by (subst bracketed_config [OF b]) simp
  with Cons.prems(1) have m: "batchMode bl1"
    by simp
  from Cons.prems(3) s have "run_requests L bl1 w1 reqs = (bl', w')"
    by simp
  from Cons.IH [OF m k(1) this] k show ?case
    by simp
qed

lemma demo_batch_openDB:
  "openDB (demo_handle\<lparr>batchMode := True\<rparr>) demo_world =
    (Returns () None, demo_batch_handle,
     demo_world\<lparr>fs := [''.'' \<mapsto> Directory,
         ''./test.db'' \<mapsto> DBFile [''pii'' \<mapsto> [], ''jids'' \<mapsto> []]], opens := 1\<rparr>)"
  by (simp add: openDB_def demo_handle_def demo_world_def bbolt_Open_def boltDB_update_def
      conn_store_def tx_CreateBucketIfNotExists_def demo_batch_handle_def)

lemma demo_batch_reachable: "reachable demo_libs demo_batch_handle"
proof -
  have 1: "reachable demo_libs (demo_handle\<lparr>batchMode := True\<rparr>)"
    by (rule reachable.after_SetBatchMode [OF demo_reachable, of demo_world True _ demo_world])
       (simp add: SetBatchMode_def)
  have "fst (snd (run_request demo_libs (demo_handle\<lparr>batchMode := True\<rparr>) demo_world
      (ReqDelete ''pii'' [])))  = demo_batch_handle"
    by (simp add: drop_value_def Delete_def demo_batch_openDB deferred_closeDB_def closeDB_def
        demo_batch_handle_def)
  then have "\<exists>r w'. run_request demo_libs (demo_handle\<lparr>batchMode := True\<rparr>) demo_world
      (ReqDelete ''pii'' []) = (r, demo_batch_handle, w')"
    by (metis prod.collapse)
  with 1 show ?thesis
    by (blast intro: reachable.after_request)
qed

section \<open>GetOne\<close>

lemma bbolt_Open_store:
  assumes "bbolt_Open w p = Inr w0"
  shows "fs w0 = (fs w)(p \<mapsto> DBFile (conn_store w (BoltDB p)))"
    and "conn_store w0 (BoltDB p) = conn_store w (BoltDB p)"
    and "\<not> unopenable w p" and "unopenable w0 = unopenable w"
    and "rand_Reader w0 = rand_Reader w"
    and "fs w p = None \<or> (\<exists>s. fs w p = Some (DBFile s))"
  using assms
  by (auto simp: bbolt_Open_def conn_store_def split: if_splits option.splits fnode.splits)

lemma openDB_opened_ok:
  assumes nb: "\<not> (batchMode bl \<and> db bl \<noteq> None)"
    and op: "openDB bl w = (Returns () None, bl1, w1)"
  shows "fs w1 = (fs w)(fullPath bl \<mapsto> DBFile (\<lambda>b.
           if conn_store w (BoltDB (fullPath bl)) b = None \<and> b \<in> set (buckets bl) then Some []
           else conn_store w (BoltDB (fullPath bl)) b))"
    and "\<not> unopenable w (fullPath bl)" and "unopenable w1 = unopenable w"
    and "rand_Reader w1 = rand_Reader w"
    and "fs w (fullPath bl) = None \<or> (\<exists>s. fs w (fullPath bl) = Some (DBFile s))"
proof -
  obtain w0 where o: "bbolt_Open w (fullPath bl) = Inr w0"
    using openDB_Open_failed [OF nb, of w] op by (cases "bbolt_Open w (fullPath bl)") auto
  note b = bbolt_Open_store [OF o]
  obtain s' where i: "initbuckets (buckets bl) (conn_store w0 (BoltDB (fullPath bl))) = Inr s'"
    using openDB_init_failed [OF nb o] op
    by (cases "initbuckets (buckets bl) (conn_store w0 (BoltDB (fullPath bl)))") auto
  from openDB_ok [OF nb o i] op
  have w1: "w1 = w0\<lparr>fs := (fs w0)(fullPath bl \<mapsto> DBFile s'), rand_Reader := rand_Reader w0\<rparr>"
    by simp
  from initbuckets_Inr [OF i, unfolded b(2)]
  have s': "s' = (\<lambda>b. if conn_store w (BoltDB (fullPath bl)) b = None \<and> b \<in> set (buckets bl)
      then Some [] else conn_store w (BoltDB (fullPath bl)) b)"
    by simp
  show "fs w1 = (fs w)(fullPath bl \<mapsto> DBFile (\<lambda>b.
           if conn_store w (BoltDB (fullPath bl)) b = None \<and> b \<in> set (buckets bl) then Some []
           else conn_store w (BoltDB (fullPath bl)) b))"
    unfolding w1 s' [symmetric] by (simp add: b(1))
  show "\<not> unopenable w (fullPath bl)" "unopenable w1 = unopenable w"
    "rand_Reader w1 = rand_Reader w"
    "fs w (fullPath bl) = None \<or> (\<exists>s. fs w (fullPath bl) = Some (DBFile s))"
    using b by (simp_all add: w1)
qed

text \<open>
  After a successful open the connection is on the handle's file, whose buckets are
  those it had, and the configured ones it lacked, empty.
\<close>

lemma openDB_success_store:
  assumes i: "handle_inv bl" and op: "openDB bl w = (Returns () None, bl1, w1)"
  shows "bl1 = bl\<lparr>db := Some (BoltDB (fullPath bl))\<rparr>"
    and "\<forall>b. conn_store w1 (BoltDB (fullPath bl)) b = conn_store w (BoltDB (fullPath bl)) b
          \<or> (conn_store w (BoltDB (fullPath bl)) b = None \<and> b \<in> set (buckets bl)
              \<and> conn_store w1 (BoltDB (fullPath bl)) b = Some [])"
    and "rand_Reader w1 = rand_Reader w"
proof -
  show "bl1 = bl\<lparr>db := Some (BoltDB (fullPath bl))\<rparr>"
    using openDB_cases [OF op] i by (auto simp: handle_inv_def)
  show "rand_Reader w1 = rand_Reader w"
    using openDB_cases [OF op] by auto
  show "\<forall>b. conn_store w1 (BoltDB (fullPath bl)) b = conn_store w (BoltDB (fullPath bl)) b
          \<or> (conn_store w (BoltDB (fullPath bl)) b = None \<and> b \<in> set (buckets bl)
              \<and> conn_store w1 (BoltDB (fullPath bl)) b = Some [])"
  proof (cases "batchMode bl \<and> db bl \<noteq> None")
    case True
    with op have "w1 = w"
      by (simp add: openDB_kept)
    then show ?thesis by simp
  next
    case False
    have "conn_store w1 (BoltDB (fullPath bl)) = (\<lambda>b.
           if conn_store w (BoltDB (fullPath bl)) b = None \<and> b \<in> set (buckets bl) then Some []
           else conn_store w (BoltDB (fullPath bl)) b)"
      by (subst (1) conn_store_def) (simp add: openDB_opened_ok(1) [OF False op])
    then show ?thesis by simp
  qed
qed

lemma openDB_succeeds:
  assumes i: "handle_inv bl" and u: "\<not> unopenable w (fullPath bl)"
    and f: "fs w (fullPath bl) = Some (DBFile s)"
  shows "\<exists>bl1 w1. openDB bl w = (Returns () None, bl1, w1)"
proof (cases "batchMode bl \<and> db bl \<noteq> None")
  case True
  then show ?thesis by (simp add: openDB_kept)
next
  case False
  have o: "bbolt_Open w (fullPath bl) = Inr (w\<lparr>opens := Suc (opens w)\<rparr>)"
    using u f by (simp add: bbolt_Open_def)
  from i have "[] \<notin> set (buckets bl)"
    by (simp add: handle_inv_def)
  from initbuckets_total [OF this] obtain s' where
    "initbuckets (buckets bl) (conn_store (w\<lparr>opens := Suc (opens w)\<rparr>) (BoltDB (fullPath bl))) = Inr s'"
    by blast
  from openDB_ok [OF False o this] show ?thesis
    by blast
qed

lemma conn_store_SomeD:
  "conn_store w (BoltDB p) b = Some bkt \<Longrightarrow> \<exists>s. fs w p = Some (DBFile s) \<and> s b = Some bkt"
  by (auto simp: conn_store_def split: option.splits fnode.splits)

lemma fst_deferred_closeDB: "fst (deferred_closeDB (r, bl, w)) = r"
  by (simp add: deferred_closeDB_def split: prod.splits)

text \<open>An existing bucket, opened: the handle and the store the operation works on.\<close>

lemma open_existing_bucket:
  assumes i: "handle_inv bl" and u: "\<not> unopenable w (fullPath bl)"
    and st: "conn_store w (BoltDB (fullPath bl)) b = Some bkt"
  obtains w1 where "openDB bl w = (Returns () None, bl\<lparr>db := Some (BoltDB (fullPath bl))\<rparr>, w1)"
    and "conn_store w1 (BoltDB (fullPath bl)) b = Some bkt"
    and "rand_Reader w1 = rand_Reader w"
proof -
  from conn_store_SomeD [OF st] obtain s where "fs w (fullPath bl) = Some (DBFile s)"
    by blast
  from openDB_succeeds [OF i u this] obtain bl1 w1 where
    o: "openDB bl w = (Returns () None, bl1, w1)"
    by blast
  note f = openDB_success_store [OF i o]
  from f(2) st have "conn_store w1 (BoltDB (fullPath bl)) b = Some bkt"
    by (metis option.distinct(1))
  with o f(1,3) that show thesis
    by simp
qed

lemma GetOne_existing_bucket:
  assumes i: "handle_inv bl" and u: "\<not> unopenable w (fullPath bl)"
    and st: "conn_store w (BoltDB (fullPath bl)) b = Some bkt"
    and k: "k \<noteq> []"
  shows "fst (GetOne L bl w b k) =
    (case cursor_Seek bkt k of
       [] \<Rightarrow> Returns [] None
     | (k', v) # rest \<Rightarrow>
         if prefix k k' then
           (case Decrypt L v (slice_bytes (secret bl)) of
              Inl e \<Rightarrow> Returns [] (Some (DecryptErrorFromDB e))
            | Inr dec \<Rightarrow> Returns dec None)
         else Returns [] None)"
proof -
  from i have s: "secret bl \<noteq> None"
    by (simp add: handle_inv_def)
  from open_existing_bucket [OF i u st] obtain w1 where
    o: "openDB bl w = (Returns () None, bl\<lparr>db := Some (BoltDB (fullPath bl))\<rparr>, w1)"
    and b: "conn_store w1 (BoltDB (fullPath bl)) b = Some bkt"
    by blast
  show ?thesis
    unfolding GetOne_def o
    using k s b
    by (simp add: fst_deferred_closeDB boltDB_view_def GetOne_seek_def tx_Bucket_def
        cursor_kv_def split: list.splits sum.splits)
qed

lemma prefix_le: "prefix (k :: string) k' \<Longrightarrow> k \<le> k'"
proof (induction k arbitrary: k')
  case Nil
  then show ?case by simp
next
  case (Cons a k)
  then show ?case by (cases k') auto
qed

text \<open>\<open>Put\<close> keeps the keys of a bucket strictly ascending.\<close>

lemma bucket_insert_sorted:
  "sorted_wrt (<) (map fst b) \<Longrightarrow> sorted_wrt (<) (map fst (bucket_insert k v b))"
proof (induction b)
  case Nil
  then show ?case by simp
next
  case (Cons x b)
  obtain k' v' where x: "x = (k', v')"
    by (cases x)
  show ?case
  proof (cases "k < k'")
    case True
    with Cons.prems x show ?thesis
      by auto
  next
    case False
    show ?thesis
    proof (cases "k = k'")
      case True
      with Cons.prems x show ?thesis
        by auto
    next
      case ne: False
      with False have lt: "k' < k"
        by simp
      from Cons x have s: "sorted_wrt (<) (map fst (bucket_insert k v b))"
        by simp
      have "\<forall>y \<in> set (bucket_insert k v b). k' < fst y"
      proof
        fix y
        assume "y \<in> set (bucket_insert k v b)"
        with set_bucket_insert [of k v b] have "y = (k, v) \<or> y \<in> set b"
          by auto
        with lt Cons.prems x show "k' < fst y"
          by auto
      qed
      with s False ne x show ?thesis
        by simp
    qed
  qed
qed

lemma cursor_Seek_least:
  assumes "sorted_wrt (<) (map fst bkt)" and "(k', v) \<in> set bkt" and "k \<le> k'"
    and "\<forall>k'' \<in> fst ` set bkt. k \<le> k'' \<longrightarrow> k' \<le> k''"
  shows "\<exists>rest. cursor_Seek bkt k = (k', v) # rest"
  using assms
proof (induction bkt)
  case Nil
  then show ?case by simp
next
  case (Cons x xs)
  obtain a va where x: "x = (a, va)"
    by (cases x)
  show ?case
  proof (cases "a < k")
    case True
    with Cons.prems x have "(k', v) \<in> set xs"
      by auto
    with Cons True x show ?thesis
      by (auto simp: cursor_Seek_def)
  next
    case False
    with Cons.prems(4) x have "k' \<le> a"
      by auto
    moreover from Cons.prems(1,2) x have "(k', v) = (a, va) \<or> a < k'"
      by auto
    ultimately have "(k', v) = (a, va)"
      by auto
    with False x show ?thesis
      by (simp add: cursor_Seek_def)
  qed
qed

lemma cursor_Seek_subset: "set (cursor_Seek bkt k) \<subseteq> set bkt"
  by (auto simp: cursor_Seek_def dest: set_dropWhileD)

text \<open>
  C4. GetOne matches by prefix. On an existing bucket with a non-empty key \<open>k\<close>, the
  cursor stops at the record whose key \<open>k'\<close> is the least stored key not below \<open>k\<close>;
  if \<open>k\<close> is a prefix of \<open>k'\<close>, GetOne returns what Decrypt makes of that record's
  value (the plaintext, for a value Encrypt produced under the handle's 32-byte key), or
  the wrapped decrypt error. The key need not equal \<open>k'\<close>: asking for "ta" returns the
  value stored under "taylor".
\<close>

theorem GetOne_prefix_match:
  assumes "reachable L bl" and "\<not> unopenable w (fullPath bl)"
    and "conn_store w (BoltDB (fullPath bl)) b = Some bkt"
    and "sorted_wrt (<) (map fst bkt)"
    and "k \<noteq> []"
    and "(k', v) \<in> set bkt" and "\<forall>k'' \<in> fst ` set bkt. k \<le> k'' \<longrightarrow> k' \<le> k''"
    and "prefix k k'"
  shows "(\<exists>rest. cursor_Seek bkt k = (k', v) # rest)
    \<and> fst (GetOne L bl w b k) =
        (case Decrypt L v (slice_bytes (secret bl)) of
           Inl e \<Rightarrow> Returns [] (Some (DecryptErrorFromDB e))
         | Inr dec \<Rightarrow> Returns dec None)
    \<and> (\<forall>n plain. aead_contract L \<and> length (slice_bytes (secret bl)) = 32
          \<and> length n = gcm_NonceSize \<and> v = n @ gcm_Seal L (slice_bytes (secret bl)) n plain
          \<longrightarrow> fst (GetOne L bl w b k) = Returns plain None)"
proof -
  from cursor_Seek_least [OF assms(4,6) prefix_le [OF assms(8)] assms(7)]
  obtain rest where c: "cursor_Seek bkt k = (k', v) # rest"
    by blast
  have g: "fst (GetOne L bl w b k) =
        (case Decrypt L v (slice_bytes (secret bl)) of
           Inl e \<Rightarrow> Returns [] (Some (DecryptErrorFromDB e))
         | Inr dec \<Rightarrow> Returns dec None)"
    by (simp add: GetOne_existing_bucket [OF reachable_inv [OF assms(1)] assms(2,3,5)] c assms(8))
  have "fst (GetOne L bl w b k) = Returns plain None"
    if "aead_contract L" "length (slice_bytes (secret bl)) = 32"
      "length n = gcm_NonceSize" "v = n @ gcm_Seal L (slice_bytes (secret bl)) n plain"
    for n plain
    using g Decrypt_payload [OF that(1) aes_NewCipher_32 [OF that(2)] that(3), of plain] that(4)
    by simp
  with c g show ?thesis
    by blast
qed

text \<open>
  C7. On an existing bucket with a non-empty key \<open>k\<close> that is a prefix of no stored
  key, GetOne returns the empty result and no error. A world in which \<open>k\<close> matches a
  record whose value decrypts to the empty plaintext gives the very same outcome.
\<close>

theorem GetOne_not_found:
  assumes "reachable L bl" and "\<not> unopenable w (fullPath bl)"
    and "conn_store w (BoltDB (fullPath bl)) b = Some bkt"
    and "k \<noteq> []"
    and "\<forall>k' \<in> fst ` set bkt. \<not> prefix k k'"
  shows "fst (GetOne L bl w b k) = Returns [] None
    \<and> (\<forall>w2 bkt2 k2 v2 rest. \<not> unopenable w2 (fullPath bl)
          \<and> conn_store w2 (BoltDB (fullPath bl)) b = Some bkt2
          \<and> cursor_Seek bkt2 k = (k2, v2) # rest \<and> prefix k k2
          \<and> Decrypt L v2 (slice_bytes (secret bl)) = Inr []
          \<longrightarrow> fst (GetOne L bl w2 b k) = fst (GetOne L bl w b k))"
proof -
  note i = reachable_inv [OF assms(1)]
  have 1: "fst (GetOne L bl w b k) = Returns [] None"
  proof (cases "cursor_Seek bkt k")
    case Nil
    then show ?thesis
      by (simp add: GetOne_existing_bucket [OF i assms(2,3,4)])
  next
    case (Cons x rest)
    obtain k' v where x: "x = (k', v)"
      by (cases x)
    with Cons cursor_Seek_subset [of bkt k] have "(k', v) \<in> set bkt"
      by auto
    with assms(5) have "\<not> prefix k k'"
      by force
    with Cons x show ?thesis
      by (simp add: GetOne_existing_bucket [OF i assms(2,3,4)])
  qed
  have "fst (GetOne L bl w2 b k) = Returns [] None"
    if "\<not> unopenable w2 (fullPath bl)" "conn_store w2 (BoltDB (fullPath bl)) b = Some bkt2"
      "cursor_Seek bkt2 k = (k2, v2) # rest" "prefix k k2"
      "Decrypt L v2 (slice_bytes (secret bl)) = Inr []"
    for w2 bkt2 k2 v2 rest
    by (simp add: GetOne_existing_bucket [OF i that(1,2) assms(4)] that(3,4,5))
  with 1 show ?thesis
    by simp
qed

lemma demo_stored_bucket:
  "conn_store demo_stored_world (BoltDB (fullPath demo_handle)) ''pii'' = Some demo_bucket"
  "\<not> unopenable demo_stored_world (fullPath demo_handle)"
  by (simp_all add: conn_store_def demo_stored_world_def demo_handle_def demo_world_def)

lemma demo_bucket_sorted: "sorted_wrt (<) (map fst demo_bucket)"
  by (simp add: demo_bucket_def)

lemma demo_secret: "slice_bytes (secret demo_handle) = demo_key" "length demo_key = 32"
  by (simp_all add: demo_handle_def slice_bytes_def demo_key_def)

theorem GetOne_prefix_match_witness:
  "reachable demo_libs demo_handle
   \<and> conn_store demo_stored_world (BoltDB (fullPath demo_handle)) ''pii'' = Some demo_bucket
   \<and> (''taylor'', demo_payload [2, 3]) \<in> set demo_bucket \<and> prefix ''ta'' ''taylor''
   \<and> fst (GetOne demo_libs demo_handle demo_stored_world ''pii'' ''ta'') = Returns [2, 3] None"
proof -
  have m: "(''taylor'', demo_payload [2, 3]) \<in> set demo_bucket"
    by (simp add: demo_bucket_def)
  have l: "\<forall>k'' \<in> fst ` set demo_bucket. ''ta'' \<le> k'' \<longrightarrow> ''taylor'' \<le> k''"
    by (simp add: demo_bucket_def)
  have p: "prefix ''ta'' ''taylor''"
    by simp
  have n: "''ta'' \<noteq> []"
    by simp
  have "aead_contract demo_libs \<and> length (slice_bytes (secret demo_handle)) = 32
     \<and> length demo_nonce = gcm_NonceSize
     \<and> demo_payload [2, 3]
        = demo_nonce @ gcm_Seal demo_libs (slice_bytes (secret demo_handle)) demo_nonce [2, 3]"
    using demo_aead_contract
    by (simp add: demo_secret demo_nonce_def gcm_NonceSize_def demo_payload_def)
       (simp add: demo_libs_def)
  with GetOne_prefix_match [OF demo_reachable demo_stored_bucket(2,1) demo_bucket_sorted n m l p]
  have "fst (GetOne demo_libs demo_handle demo_stored_world ''pii'' ''ta'') = Returns [2, 3] None"
    by blast
  with demo_reachable demo_stored_bucket(1) m p show ?thesis
    by simp
qed

lemma demo_Decrypt_empty: "Decrypt demo_libs (demo_payload []) demo_key = Inr []"
  by (simp add: Decrypt_def aes_NewCipher_def demo_key_def demo_payload_def demo_nonce_def
      gcm_NonceSize_def demo_libs_def demo_Open_Seal)

theorem GetOne_not_found_witness:
  "reachable demo_libs demo_handle
   \<and> conn_store demo_stored_world (BoltDB (fullPath demo_handle)) ''pii'' = Some demo_bucket
   \<and> fst (GetOne demo_libs demo_handle demo_stored_world ''pii'' ''u'') = Returns [] None
   \<and> conn_store demo_empty_value_world (BoltDB (fullPath demo_handle)) ''pii''
        = Some [(''user'', demo_payload [])]
   \<and> Decrypt demo_libs (demo_payload []) (slice_bytes (secret demo_handle)) = Inr []
   \<and> fst (GetOne demo_libs demo_handle demo_empty_value_world ''pii'' ''u'') = Returns [] None"
proof -
  have n: "''u'' \<noteq> []"
    by simp
  have a: "\<forall>k' \<in> fst ` set demo_bucket. \<not> prefix ''u'' k'"
    by (simp add: demo_bucket_def)
  note t = GetOne_not_found [OF demo_reachable demo_stored_bucket(2,1) n a]
  have e: "\<not> unopenable demo_empty_value_world (fullPath demo_handle)"
    "conn_store demo_empty_value_world (BoltDB (fullPath demo_handle)) ''pii''
        = Some [(''user'', demo_payload [])]"
    by (simp_all add: conn_store_def demo_empty_value_world_def demo_handle_def demo_world_def)
  have c: "cursor_Seek [(''user'', demo_payload [])] ''u'' = (''user'', demo_payload []) # []"
    by (simp add: cursor_Seek_def)
  have p: "prefix ''u'' ''user''"
    by simp
  have d: "Decrypt demo_libs (demo_payload []) (slice_bytes (secret demo_handle)) = Inr []"
    by (simp add: demo_secret demo_Decrypt_empty)
  from t e c p d
  have "fst (GetOne demo_libs demo_handle demo_empty_value_world ''pii'' ''u'')
      = fst (GetOne demo_libs demo_handle demo_stored_world ''pii'' ''u'')"
    by blast
  with t demo_reachable demo_stored_bucket(1) e d show ?thesis
    by simp
qed

section \<open>Operations after the open, and buckets the store does not hold\<close>

lemma tx_status_simps [simp]:
  "tx_status (Commit s) = Returns () None" "tx_status (Abort e) = Returns () (Some e)"
  "tx_status TxPanic = Panics"
  by (simp_all add: tx_status_def)

lemma fst_run_update:
  "db bl = Some c \<Longrightarrow>
    fst (run_update bl w fn) = tx_status (fst (fn (conn_store w c) (rand_Reader w)))"
  by (cases c)
     (auto simp: run_update_def boltDB_update_def tx_status_def split: prod.splits txresult.splits)

lemma fst_deferred_closeDB_any: "fst (deferred_closeDB x) = fst x"
  by (cases x) (simp add: deferred_closeDB_def split: prod.splits)

lemma SaveBytes_after_open:
  assumes "openDB bl w = (Returns () None, bl1, w1)" and "db bl1 = Some c"
  shows "fst (SaveBytes L bl w b k (Some d)) =
    tx_status (fst (SaveBytes_save L bl1 b k d (conn_store w1 c) (rand_Reader w1)))"
  unfolding SaveBytes_def assms(1) by (simp add: fst_deferred_closeDB_any fst_run_update [OF assms(2)])

lemma Save_after_open:
  assumes "openDB bl w = (Returns () None, bl1, w1)" and "db bl1 = Some c"
  shows "fst (Save L bl w b k (Some d)) =
    tx_status (fst (Save_save L bl1 b k d (conn_store w1 c) (rand_Reader w1)))"
  unfolding Save_def assms(1) by (simp add: fst_deferred_closeDB_any fst_run_update [OF assms(2)])

lemma Delete_after_open:
  assumes "openDB bl w = (Returns () None, bl1, w1)" and "db bl1 = Some c" and "k \<noteq> []"
  shows "fst (Delete bl w b k) =
    tx_status (fst (Delete_delete b k (conn_store w1 c) (rand_Reader w1)))"
  unfolding Delete_def assms(1)
  by (simp add: fst_deferred_closeDB_any fst_run_update [OF assms(2)] assms(3))

lemma GetOne_after_open:
  assumes "openDB bl w = (Returns () None, bl1, w1)" and "db bl1 = Some c" and "k \<noteq> []"
  shows "fst (GetOne L bl w b k) =
    (case GetOne_seek L bl1 b k (conn_store w1 c) of
       (result, Some e) \<Rightarrow> Returns [] (Some e)
     | (result, None) \<Rightarrow> Returns result None)"
  unfolding GetOne_def assms(1)
  by (simp add: fst_deferred_closeDB assms(2,3) boltDB_view_def split: prod.splits option.splits)

lemma GetByPrefix_after_open:
  assumes "openDB bl w = (Returns () None, bl1, w1)" and "db bl1 = Some c"
  shows "fst (GetByPrefix L bl w b p) =
    (case GetByPrefix_seekPrefix L bl1 b p (conn_store w1 c) of
       (results, err) \<Rightarrow> Returns results err)"
  unfolding GetByPrefix_def assms(1)
  by (simp add: fst_deferred_closeDB assms(2) boltDB_view_def split: prod.splits)

lemma GetKeyList_after_open:
  assumes "openDB bl w = (Returns () None, bl1, w1)" and "db bl1 = Some c"
  shows "fst (GetKeyList bl w b p) =
    (case GetKeyList_seekPrefix b p (conn_store w1 c) of
       (results, err) \<Rightarrow> Returns results err)"
  unfolding GetKeyList_def assms(1)
  by (simp add: fst_deferred_closeDB assms(2) boltDB_view_def split: prod.splits)

lemma open_missing_bucket:
  assumes i: "handle_inv bl" and u: "\<not> unopenable w (fullPath bl)"
    and f: "fs w (fullPath bl) = Some (DBFile s)" and n: "s b = None"
    and c: "b \<notin> set (buckets bl)"
  obtains w1 where "openDB bl w = (Returns () None, bl\<lparr>db := Some (BoltDB (fullPath bl))\<rparr>, w1)"
    and "conn_store w1 (BoltDB (fullPath bl)) b = None"
    and "rand_Reader w1 = rand_Reader w"
proof -
  from openDB_succeeds [OF i u f] obtain bl1 w1 where
    o: "openDB bl w = (Returns () None, bl1, w1)"
    by blast
  note g = openDB_success_store [OF i o]
  have "conn_store w (BoltDB (fullPath bl)) b = None"
    using f n by (simp add: conn_store_def)
  with g(2) c have "conn_store w1 (BoltDB (fullPath bl)) b = None"
    by metis
  with o g(1,3) that show thesis
    by simp
qed

text \<open>What each operation does on a bucket the store does not hold.\<close>

lemma missing_bucket_outcomes:
  assumes i: "handle_inv bl" and u: "\<not> unopenable w (fullPath bl)"
    and f: "fs w (fullPath bl) = Some (DBFile s)" and n: "s b = None"
    and c: "b \<notin> set (buckets bl)"
  shows "k \<noteq> [] \<Longrightarrow> fst (Delete bl w b k) = Panics"
    and "fst (Encrypt L (rand_Reader w) d (slice_bytes (secret bl))) = Inr enc
      \<Longrightarrow> fst (SaveBytes L bl w b k (Some d)) = Panics"
    and "json_Marshal L x = Inr d
      \<Longrightarrow> fst (Encrypt L (rand_Reader w) d (slice_bytes (secret bl))) = Inr enc
      \<Longrightarrow> fst (Save L bl w b k (Some x)) = Panics"
    and "k \<noteq> [] \<Longrightarrow> fst (GetOne L bl w b k) = Returns [] (Some ErrBucketNotFound)"
    and "fst (GetByPrefix L bl w b k) = Returns Map.empty (Some ErrBucketNotFound)"
    and "fst (GetKeyList bl w b k) = Returns [] (Some ErrBucketNotFound)"
proof -
  from open_missing_bucket [OF i u f n c] obtain w1 where
    o: "openDB bl w = (Returns () None, bl\<lparr>db := Some (BoltDB (fullPath bl))\<rparr>, w1)"
    and m: "conn_store w1 (BoltDB (fullPath bl)) b = None"
    and r: "rand_Reader w1 = rand_Reader w"
    by blast
  have d: "db (bl\<lparr>db := Some (BoltDB (fullPath bl))\<rparr>) = Some (BoltDB (fullPath bl))"
    by simp
  from i have s: "secret bl \<noteq> None"
    by (simp add: handle_inv_def)
  show "fst (Delete bl w b k) = Panics" if "k \<noteq> []"
    by (simp add: Delete_after_open [OF o d that] Delete_delete_def tx_Bucket_def m
        Bucket_Delete_def)
  show "fst (SaveBytes L bl w b k (Some d)) = Panics"
    if "fst (Encrypt L (rand_Reader w) d (slice_bytes (secret bl))) = Inr enc"
  proof -
    from that obtain rnd' where
      "Encrypt L (rand_Reader w) d (slice_bytes (secret bl)) = (Inr enc, rnd')"
      by (metis prod.collapse)
    with s show ?thesis
      by (simp add: SaveBytes_after_open [OF o d] SaveBytes_save_def tx_Bucket_def m r
          Bucket_Put_def)
  qed
  show "fst (Save L bl w b k (Some x)) = Panics"
    if "json_Marshal L x = Inr d"
      "fst (Encrypt L (rand_Reader w) d (slice_bytes (secret bl))) = Inr enc"
  proof -
    from that(2) obtain rnd' where
      "Encrypt L (rand_Reader w) d (slice_bytes (secret bl)) = (Inr enc, rnd')"
      by (metis prod.collapse)
    with s that(1) show ?thesis
      by (simp add: Save_after_open [OF o d] Save_save_def tx_Bucket_def m r
          Bucket_Put_def)
  qed
  show "fst (GetOne L bl w b k) = Returns [] (Some ErrBucketNotFound)" if "k \<noteq> []"
    by (simp add: GetOne_after_open [OF o d that] GetOne_seek_def tx_Bucket_def m)
  show "fst (GetByPrefix L bl w b k) = Returns Map.empty (Some ErrBucketNotFound)"
    by (simp add: GetByPrefix_after_open [OF o d] GetByPrefix_seekPrefix_def tx_Bucket_def m)
  show "fst (GetKeyList bl w b k) = Returns [] (Some ErrBucketNotFound)"
    by (simp add: GetKeyList_after_open [OF o d] GetKeyList_seekPrefix_def tx_Bucket_def m)
qed

lemma demo_handle_inv: "handle_inv demo_handle"
  by (rule reachable_inv [OF demo_reachable])

lemma demo_stored_file:
  "fs demo_stored_world (fullPath demo_handle)
    = Some (DBFile [''pii'' \<mapsto> demo_bucket, ''jids'' \<mapsto> []])"
  by (simp add: demo_stored_world_def demo_handle_def)

lemma demo_Encrypt:
  "fst (Encrypt demo_libs (rand_Reader demo_stored_world) p demo_key) = Inr (demo_payload p)"
  by (simp add: Encrypt_def aes_NewCipher_def demo_key_def io_ReadFull_def gcm_NonceSize_def
      demo_stored_world_def demo_world_def demo_payload_def demo_nonce_def demo_libs_def)

text \<open>
  C6 fails on the code. On a store that has the buckets "pii" and "jids" and no bucket
  "nosuch", the reads GetOne and GetKeyList on "nosuch" return the bucket-not-found error,
  but Save, SaveBytes and Delete on it panic: they call \<open>Put\<close> and \<open>Delete\<close> on the
  nil bucket handle, which the reads test for and the writes do not.
\<close>

theorem write_to_missing_bucket_panics:
  "conn_store demo_stored_world (BoltDB (fullPath demo_handle)) ''nosuch'' = None
   \<and> fst (Save demo_libs demo_handle demo_stored_world ''nosuch'' ''k'' (Some [1])) = Panics
   \<and> fst (SaveBytes demo_libs demo_handle demo_stored_world ''nosuch'' ''k'' (Some [1])) = Panics
   \<and> fst (Delete demo_handle demo_stored_world ''nosuch'' ''k'') = Panics
   \<and> fst (GetOne demo_libs demo_handle demo_stored_world ''nosuch'' ''k'')
        = Returns [] (Some ErrBucketNotFound)
   \<and> fst (GetKeyList demo_handle demo_stored_world ''nosuch'' ''k'')
        = Returns [] (Some ErrBucketNotFound)"
proof -
  have n: "[''pii'' \<mapsto> demo_bucket, ''jids'' \<mapsto> []] ''nosuch'' = None"
    and c: "''nosuch'' \<notin> set (buckets demo_handle)" and k: "''k'' \<noteq> []"
    by (simp_all add: demo_handle_def)
  note m = missing_bucket_outcomes [OF demo_handle_inv demo_stored_bucket(2) demo_stored_file n c]
  have j: "json_Marshal demo_libs [1] = Inr [1]"
    by (simp add: demo_libs_def)
  have e: "fst (Encrypt demo_libs (rand_Reader demo_stored_world) [1]
      (slice_bytes (secret demo_handle))) = Inr (demo_payload [1])"
    by (simp add: demo_secret demo_Encrypt)
  have "conn_store demo_stored_world (BoltDB (fullPath demo_handle)) ''nosuch'' = None"
    by (simp add: conn_store_def demo_stored_file)
  with m(1) [OF k] m(2) [OF e] m(3) [OF j e] m(4) [OF k] m(6) show ?thesis
    by simp
qed

section \<open>Nonces and key sizes\<close>

text \<open>
  C8 as stated fails on the code: nonce reuse under the same key can occur. Encrypt keeps
  no record of the nonces it has used; the nonce is whatever twelve bytes the random
  reader delivers. On a reader that delivers the same twelve bytes twice, two successive
  calls of Encrypt with the same plaintext and key return the same payload.
\<close>

theorem Encrypt_repeated_nonce_repeats_payload:
  "Encrypt demo_libs (replicate 12 1 @ replicate 12 1) [104, 105] demo_key
     = (Inr (replicate 12 1 @ demo_Seal demo_key (replicate 12 1) [104, 105]), replicate 12 1)
   \<and> Encrypt demo_libs (replicate 12 1) [104, 105] demo_key
     = (Inr (replicate 12 1 @ demo_Seal demo_key (replicate 12 1) [104, 105]), [])"
  by (simp add: Encrypt_def aes_NewCipher_def demo_key_def io_ReadFull_def gcm_NonceSize_def
      demo_libs_def)

text \<open>
  C8, amended. Every call of Encrypt that returns a payload has read its nonce, of the
  AEAD's nonce size, from the random reader and left the reader advanced past those
  bytes; the payload is that nonce followed by the sealed text. So of two calls on the
  one reader, the second after any number \<open>n\<close> of bytes read from it in between, each
  has a nonce of its own, taken from a part of the stream the other does not read, and
  for the same plaintext and key the two payloads are distinct exactly when the two
  nonces are. That the nonces differ is left to the random reader.
\<close>

theorem Encrypt_fresh_nonce:
  assumes "Encrypt L r P K = (Inr c1, r')" and "Encrypt L (drop n r') P K = (Inr c2, r'')"
  shows "length (take gcm_NonceSize r) = gcm_NonceSize
    \<and> c1 = take gcm_NonceSize r @ gcm_Seal L K (take gcm_NonceSize r) P
    \<and> r' = drop gcm_NonceSize r
    \<and> length (take gcm_NonceSize (drop (gcm_NonceSize + n) r)) = gcm_NonceSize
    \<and> c2 = take gcm_NonceSize (drop (gcm_NonceSize + n) r)
         @ gcm_Seal L K (take gcm_NonceSize (drop (gcm_NonceSize + n) r)) P
    \<and> r'' = drop (gcm_NonceSize + n + gcm_NonceSize) r
    \<and> (c1 = c2 \<longleftrightarrow> take gcm_NonceSize r = take gcm_NonceSize (drop (gcm_NonceSize + n) r))"
proof -
  note a = Encrypt_Inr_cases [OF assms(1)] and b = Encrypt_Inr_cases [OF assms(2)]
  from a have r': "r' = drop gcm_NonceSize r"
    by simp
  have d: "drop n r' = drop (gcm_NonceSize + n) r"
    by (simp add: r' add.commute)
  let ?n1 = "take gcm_NonceSize r" and ?n2 = "take gcm_NonceSize (drop (gcm_NonceSize + n) r)"
  from a have l1: "length ?n1 = gcm_NonceSize"
    by simp
  from b have l2: "length ?n2 = gcm_NonceSize"
    unfolding d by simp
  from a have c1: "c1 = ?n1 @ gcm_Seal L K ?n1 P"
    by simp
  from b have c2: "c2 = ?n2 @ gcm_Seal L K ?n2 P"
    unfolding d by simp
  from b have r'': "r'' = drop (gcm_NonceSize + n + gcm_NonceSize) r"
    unfolding d by (simp add: add.commute)
  have e: "c1 = c2 \<longleftrightarrow> ?n1 = ?n2"
  proof
    assume "c1 = c2"
    with c1 c2 have "?n1 @ gcm_Seal L K ?n1 P = ?n2 @ gcm_Seal L K ?n2 P"
      by simp
    with l1 l2 show "?n1 = ?n2"
      by (metis append_eq_append_conv)
  next
    assume "?n1 = ?n2"
    with c1 c2 show "c1 = c2"
      by simp
  qed
  show ?thesis
    by (intro conjI) (fact l1 c1 r' l2 c2 r'' e)+
qed

theorem Encrypt_fresh_nonce_witness:
  "Encrypt demo_libs (replicate 12 1 @ replicate 12 2) [104, 105] demo_key
     = (Inr (replicate 12 1 @ demo_Seal demo_key (replicate 12 1) [104, 105]), replicate 12 2)
   \<and> Encrypt demo_libs (drop 0 (replicate 12 2)) [104, 105] demo_key
     = (Inr (replicate 12 2 @ demo_Seal demo_key (replicate 12 2) [104, 105]), [])
   \<and> take gcm_NonceSize (replicate 12 1 @ replicate 12 (2 :: byte)) = replicate 12 1
   \<and> take gcm_NonceSize (drop (gcm_NonceSize + 0) (replicate 12 1 @ replicate 12 (2 :: byte)))
       = replicate 12 2
   \<and> replicate 12 1 @ demo_Seal demo_key (replicate 12 1) [104, 105]
     \<noteq> replicate 12 2 @ demo_Seal demo_key (replicate 12 2) [104, 105]"
proof -
  have 1: "Encrypt demo_libs (replicate 12 1 @ replicate 12 2) [104, 105] demo_key
     = (Inr (replicate 12 1 @ demo_Seal demo_key (replicate 12 1) [104, 105]), replicate 12 2)"
    by (simp add: Encrypt_def aes_NewCipher_def demo_key_def io_ReadFull_def gcm_NonceSize_def
        demo_libs_def)
  have 2: "Encrypt demo_libs (drop 0 (replicate 12 2)) [104, 105] demo_key
     = (Inr (replicate 12 2 @ demo_Seal demo_key (replicate 12 2) [104, 105]), [])"
    by (simp add: Encrypt_def aes_NewCipher_def demo_key_def io_ReadFull_def gcm_NonceSize_def
        demo_libs_def)
  have 3: "take gcm_NonceSize (replicate 12 1 @ replicate 12 (2 :: byte)) = replicate 12 1"
    "take gcm_NonceSize (drop (gcm_NonceSize + 0) (replicate 12 1 @ replicate 12 (2 :: byte)))
       = replicate 12 2"
    by (simp_all add: gcm_NonceSize_def)
  have 4: "replicate 12 (1 :: byte) \<noteq> replicate 12 2"
    by simp
  note t = Encrypt_fresh_nonce [OF 1 2, THEN conjunct2, THEN conjunct2, THEN conjunct2,
      THEN conjunct2, THEN conjunct2, THEN conjunct2, unfolded 3]
  from t 4
  have 5: "replicate 12 1 @ demo_Seal demo_key (replicate 12 1) [104, 105]
     \<noteq> replicate 12 2 @ demo_Seal demo_key (replicate 12 2) [104, 105]"
    by blast
  show ?thesis
    by (intro conjI) (fact 1 2 3 5)+
qed

lemma long_secret:
  assumes "32 < length s"
  shows "secret (SetSecret L bl (Some s)) = Some s"
    and "Encrypt L rnd p s = (Inl (KeySizeError (length s)), rnd)"
    and "Decrypt L c s = Inl (KeySizeError (length s))"
  using assms
  by (simp_all add: SetSecret_def slice_bytes_def Encrypt_def Decrypt_def aes_NewCipher_def)

lemma tx_status_Bucket_Put:
  "tx_status (Bucket_Put s b (Some bkt) k v) =
    (if length k = 0 then Returns () (Some ErrKeyRequired)
     else if MaxKeySize < length k then Returns () (Some ErrKeyTooLarge)
     else if MaxValueSize < length v then Returns () (Some ErrValueTooLarge)
     else Returns () None)"
  by (simp add: Bucket_Put_def)

text \<open>SaveBytes on a bucket the store holds.\<close>

lemma SaveBytes_existing_bucket:
  assumes i: "handle_inv bl" and u: "\<not> unopenable w (fullPath bl)"
    and st: "conn_store w (BoltDB (fullPath bl)) b = Some bkt"
  shows "fst (SaveBytes L bl w b k (Some d)) =
    (case fst (Encrypt L (rand_Reader w) d (slice_bytes (secret bl))) of
       Inl e \<Rightarrow> Returns () (Some (EncryptErrorFromDB e))
     | Inr enc \<Rightarrow>
         if length k = 0 then Returns () (Some ErrKeyRequired)
         else if MaxKeySize < length k then Returns () (Some ErrKeyTooLarge)
         else if MaxValueSize < length enc then Returns () (Some ErrValueTooLarge)
         else Returns () None)"
proof -
  from i have s: "secret bl \<noteq> None"
    by (simp add: handle_inv_def)
  from open_existing_bucket [OF i u st] obtain w1 where
    o: "openDB bl w = (Returns () None, bl\<lparr>db := Some (BoltDB (fullPath bl))\<rparr>, w1)"
    and m: "conn_store w1 (BoltDB (fullPath bl)) b = Some bkt"
    and r: "rand_Reader w1 = rand_Reader w"
    by blast
  have d: "db (bl\<lparr>db := Some (BoltDB (fullPath bl))\<rparr>) = Some (BoltDB (fullPath bl))"
    by simp
  obtain x rnd' where e: "Encrypt L (rand_Reader w) d (slice_bytes (secret bl)) = (x, rnd')"
    by (cases "Encrypt L (rand_Reader w) d (slice_bytes (secret bl))")
  show ?thesis
    using s
    by (cases x)
       (simp_all add: SaveBytes_after_open [OF o d] SaveBytes_save_def tx_Bucket_def m r e
        tx_status_Bucket_Put)
qed

lemma demo_openDB_secret:
  "openDB (demo_handle\<lparr>secret := x\<rparr>) demo_world =
    (Returns () None, demo_handle\<lparr>secret := x, db := Some (BoltDB ''./test.db'')\<rparr>,
     demo_world\<lparr>fs := [''.'' \<mapsto> Directory,
         ''./test.db'' \<mapsto> DBFile [''pii'' \<mapsto> [], ''jids'' \<mapsto> []]], opens := 1\<rparr>)"
  by (simp add: openDB_def demo_handle_def demo_world_def bbolt_Open_def boltDB_update_def
      conn_store_def tx_CreateBucketIfNotExists_def)

lemma demo_constructed_secret:
  assumes "32 \<le> length s"
  shows "fst (NewBoltLocknut demo_libs demo_world ''test.db'' ''.'' (Some s) False
      [''pii'', ''jids'']) = Returns (Some (demo_handle\<lparr>secret := Some s\<rparr>)) None"
proof -
  have j: "filepath_Join demo_libs ''.'' ''test.db'' = ''./test.db''"
    by (simp add: demo_libs_def demo_Join_def)
  have s: "SetSecret demo_libs
      \<lparr> name = ''test.db'', path = ''.'', fullPath = ''./test.db'', secret = None,
        buckets = [''pii'', ''jids''], batchMode = False, db = None \<rparr> (Some s)
      = demo_handle\<lparr>secret := Some s\<rparr>"
    using assms by (simp add: SetSecret_def slice_bytes_def demo_handle_def)
  have f: "fs demo_world ''.'' = Some Directory" "fs demo_world ''./test.db'' = None"
    by (simp_all add: demo_world_def)
  show ?thesis
    unfolding NewBoltLocknut_def j Let_def s demo_openDB_secret
    by (simp add: f IsDir_def closeDB_def demo_handle_def)
qed

text \<open>
  C2 fails on the code. A secret of 33 bytes, given to the constructor or to SetSecret,
  stays the handle's secret as it is: 33 bytes, not 32. The cipher takes no key of that
  size, so SaveBytes fails in Encrypt and GetOne in Decrypt, both at the key setup.
\<close>

theorem long_secret_fails_key_setup:
  "fst (NewBoltLocknut demo_libs demo_world ''test.db'' ''.'' (Some (replicate 33 9)) False
      [''pii'', ''jids'']) = Returns (Some (demo_handle\<lparr>secret := Some (replicate 33 9)\<rparr>)) None
   \<and> secret (SetSecret demo_libs demo_handle (Some (replicate 33 9))) = Some (replicate 33 9)
   \<and> length (replicate 33 (9 :: byte)) = 33
   \<and> fst (SaveBytes demo_libs (demo_handle\<lparr>secret := Some (replicate 33 9)\<rparr>)
        demo_stored_world ''pii'' ''k'' (Some [1]))
      = Returns () (Some (EncryptErrorFromDB (KeySizeError 33)))
   \<and> fst (GetOne demo_libs (demo_handle\<lparr>secret := Some (replicate 33 9)\<rparr>)
        demo_stored_world ''pii'' ''taylor'')
      = Returns [] (Some (DecryptErrorFromDB (KeySizeError 33)))"
proof -
  let ?bl = "demo_handle\<lparr>secret := Some (replicate 33 9)\<rparr>"
  have i: "handle_inv ?bl"
    using demo_handle_inv by (auto simp: handle_inv_def split: option.splits)
  have u: "\<not> unopenable demo_stored_world (fullPath ?bl)"
    and st: "conn_store demo_stored_world (BoltDB (fullPath ?bl)) ''pii'' = Some demo_bucket"
    using demo_stored_bucket by simp_all
  have l: "32 < length (replicate 33 (9 :: byte))" "32 \<le> length (replicate 33 (9 :: byte))"
    by simp_all
  have k: "''taylor'' \<noteq> []"
    by simp
  have c: "cursor_Seek demo_bucket ''taylor''
      = [(''taylor'', demo_payload [2, 3]), (''test'', demo_payload [])]"
    by (simp add: cursor_Seek_def demo_bucket_def)
  have 1: "fst (SaveBytes demo_libs ?bl demo_stored_world ''pii'' ''k'' (Some [1]))
      = Returns () (Some (EncryptErrorFromDB (KeySizeError 33)))"
    by (simp add: SaveBytes_existing_bucket [OF i u st] slice_bytes_def long_secret(2) [OF l(1)])
  have 2: "fst (GetOne demo_libs ?bl demo_stored_world ''pii'' ''taylor'')
      = Returns [] (Some (DecryptErrorFromDB (KeySizeError 33)))"
    by (simp add: GetOne_existing_bucket [OF i u st k] c slice_bytes_def long_secret(3) [OF l(1)])
  from 1 2 demo_constructed_secret [OF l(2)] long_secret(1) [OF l(1)] show ?thesis
    by simp
qed

section \<open>The invariant on keys\<close>

lemma world_keys_fs_upd:
  "world_keys_nonempty w \<Longrightarrow> keys_nonempty s \<Longrightarrow> fs w' = (fs w)(p \<mapsto> DBFile s)
    \<Longrightarrow> world_keys_nonempty w'"
  by (simp add: world_keys_nonempty_def)

lemma initbuckets_keys:
  "keys_nonempty S \<Longrightarrow>
    keys_nonempty (\<lambda>b. if S b = None \<and> b \<in> set bs then Some [] else S b)"
  by (auto simp: keys_nonempty_def split: if_splits)

lemma openDB_keys:
  assumes k: "world_keys_nonempty w" and op: "openDB bl w = (r, bl1, w1)"
  shows "world_keys_nonempty w1"
proof (cases "batchMode bl \<and> db bl \<noteq> None")
  case True
  with op have "w1 = w"
    by (simp add: openDB_kept)
  with k show ?thesis by simp
next
  case False
  show ?thesis
  proof (cases "bbolt_Open w (fullPath bl)")
    case (Inl e)
    from openDB_Open_failed [OF False Inl] op k show ?thesis
      by simp
  next
    case (Inr w0)
    note b = bbolt_Open_store [OF Inr]
    have k0: "world_keys_nonempty w0"
      by (rule world_keys_fs_upd [OF k conn_store_keys [OF k] b(1)])
    show ?thesis
    proof (cases "initbuckets (buckets bl) (conn_store w0 (BoltDB (fullPath bl)))")
      case (Inl e)
      from openDB_init_failed [OF False Inr Inl] op have "fs w1 = fs w0"
        by (auto simp: db_Close_def)
      with k0 show ?thesis
        by (simp add: world_keys_nonempty_def)
    next
      case (Inr s')
      from initbuckets_Inr [OF Inr] initbuckets_keys [OF conn_store_keys [OF k0]]
      have "keys_nonempty s'"
        by simp
      moreover from openDB_ok [OF False \<open>bbolt_Open w (fullPath bl) = Inr w0\<close> Inr] op
      have "fs w1 = (fs w0)(fullPath bl \<mapsto> DBFile s')"
        by auto
      ultimately show ?thesis
        using k0 by (blast intro: world_keys_fs_upd)
    qed
  qed
qed

lemma closeDB_fs: "closeDB bl w = (bl', w') \<Longrightarrow> fs w' = fs w"
  by (auto simp: closeDB_def db_Close_def split: if_splits)

lemma bracketed_keys:
  assumes b: "bracketed bl w r bl' w'" and k: "world_keys_nonempty w"
  shows "world_keys_nonempty w'"
proof -
  from b obtain r0 bl1 w1 wb where o: "openDB bl w = (r0, bl1, w1)"
    and c: "if r0 = Returns () None
         then closeDB bl1 wb = (bl', w') \<and> opens wb = opens w1 \<and> closes wb = closes w1
           \<and> (world_keys_nonempty w1 \<longrightarrow> world_keys_nonempty wb)
         else r = r0 \<and> bl' = bl1 \<and> w' = w1"
    unfolding bracketed_def by blast
  note k1 = openDB_keys [OF k o]
  show ?thesis
  proof (cases "r0 = Returns () None")
    case True
    with c k1 have "world_keys_nonempty wb" and "fs w' = fs wb"
      by (auto dest: closeDB_fs)
    then show ?thesis
      by (simp add: world_keys_nonempty_def)
  next
    case False
    with c k1 show ?thesis by simp
  qed
qed

lemma Bucket_Put_empty_key:
  "Bucket_Put s b bkt [] v \<noteq> Commit s'"
  "bkt = Some x \<Longrightarrow> Bucket_Put s b bkt [] v = Abort ErrKeyRequired"
  by (simp_all add: Bucket_Put_def split: option.splits)

lemma Save_save_empty_key:
  "fst (Save_save L bl b [] d s rnd) \<noteq> Commit s'"
  "s b = Some bkt \<Longrightarrow> \<exists>e. fst (Save_save L bl b [] d s rnd) = Abort e"
  by (auto simp: Save_save_def Let_def tx_Bucket_def Bucket_Put_empty_key
      split: sum.splits prod.splits)

lemma SaveBytes_save_empty_key:
  "fst (SaveBytes_save L bl b [] d s rnd) \<noteq> Commit s'"
  "s b = Some bkt \<Longrightarrow> \<exists>e. fst (SaveBytes_save L bl b [] d s rnd) = Abort e"
  by (auto simp: SaveBytes_save_def Let_def tx_Bucket_def Bucket_Put_empty_key
      split: sum.splits prod.splits)

lemma tx_status_not_Commit: "(\<And>s'. t \<noteq> Commit s') \<Longrightarrow> tx_status t \<noteq> Returns () None"
  by (cases t) auto

lemma Save_empty_key: "fst (Save L bl w b [] d) \<noteq> Returns () None"
proof (cases bl w rule: openDB_result)
  case (ok bl1 w1)
  from openDB_success_db [OF ok] obtain c where c: "db bl1 = Some c"
    by blast
  show ?thesis
  proof (cases d)
    case None
    with ok show ?thesis
      by (simp add: Save_def fst_deferred_closeDB_any)
  next
    case (Some x)
    with Save_after_open [OF ok c, of L b "[]" x] show ?thesis
      by (simp add: tx_status_not_Commit Save_save_empty_key(1))
  qed
next
  case (err e bl1 w1)
  then show ?thesis
    by (simp add: Save_def)
qed

lemma SaveBytes_empty_key: "fst (SaveBytes L bl w b [] d) \<noteq> Returns () None"
proof (cases bl w rule: openDB_result)
  case (ok bl1 w1)
  from openDB_success_db [OF ok] obtain c where c: "db bl1 = Some c"
    by blast
  show ?thesis
  proof (cases d)
    case None
    with ok show ?thesis
      by (simp add: SaveBytes_def fst_deferred_closeDB_any)
  next
    case (Some x)
    with SaveBytes_after_open [OF ok c, of L b "[]" x] show ?thesis
      by (simp add: tx_status_not_Commit SaveBytes_save_empty_key(1))
  qed
next
  case (err e bl1 w1)
  then show ?thesis
    by (simp add: SaveBytes_def)
qed

lemma empty_key_error:
  assumes i: "handle_inv bl" and u: "\<not> unopenable w (fullPath bl)"
    and st: "conn_store w (BoltDB (fullPath bl)) b = Some bkt"
  shows "\<exists>e. fst (Save L bl w b [] d) = Returns () (Some e)"
    and "\<exists>e. fst (SaveBytes L bl w b [] d') = Returns () (Some e)"
proof -
  from open_existing_bucket [OF i u st] obtain w1 where
    o: "openDB bl w = (Returns () None, bl\<lparr>db := Some (BoltDB (fullPath bl))\<rparr>, w1)"
    and m: "conn_store w1 (BoltDB (fullPath bl)) b = Some bkt"
    by blast
  have c: "db (bl\<lparr>db := Some (BoltDB (fullPath bl))\<rparr>) = Some (BoltDB (fullPath bl))"
    by simp
  show "\<exists>e. fst (Save L bl w b [] d) = Returns () (Some e)"
  proof (cases d)
    case None
    with o show ?thesis
      by (simp add: Save_def fst_deferred_closeDB_any)
  next
    case (Some x)
    from Save_save_empty_key(2) [where s = "conn_store w1 (BoltDB (fullPath bl))" and b = b
        and L = L and bl = "bl\<lparr>db := Some (BoltDB (fullPath bl))\<rparr>" and d = x
        and rnd = "rand_Reader w1", OF m]
    obtain e where
      "fst (Save_save L (bl\<lparr>db := Some (BoltDB (fullPath bl))\<rparr>) b [] x
          (conn_store w1 (BoltDB (fullPath bl))) (rand_Reader w1)) = Abort e"
      by blast
    with Save_after_open [OF o c, of L b "[]" x] Some show ?thesis
      by simp
  qed
  show "\<exists>e. fst (SaveBytes L bl w b [] d') = Returns () (Some e)"
  proof (cases d')
    case None
    with o show ?thesis
      by (simp add: SaveBytes_def fst_deferred_closeDB_any)
  next
    case (Some x)
    from SaveBytes_save_empty_key(2) [where s = "conn_store w1 (BoltDB (fullPath bl))" and b = b
        and L = L and bl = "bl\<lparr>db := Some (BoltDB (fullPath bl))\<rparr>" and d = x
        and rnd = "rand_Reader w1", OF m]
    obtain e where
      "fst (SaveBytes_save L (bl\<lparr>db := Some (BoltDB (fullPath bl))\<rparr>) b [] x
          (conn_store w1 (BoltDB (fullPath bl))) (rand_Reader w1)) = Abort e"
      by blast
    with SaveBytes_after_open [OF o c, of L b "[]" x] Some show ?thesis
      by simp
  qed
qed

lemma NewBoltLocknut_world:
  "snd (NewBoltLocknut L w nm pth sec mode bnames) = w
   \<or> (\<exists>bl0 r1 bl1 w1. openDB bl0 w = (r1, bl1, w1)
        \<and> (snd (NewBoltLocknut L w nm pth sec mode bnames) = w1
          \<or> snd (NewBoltLocknut L w nm pth sec mode bnames) = snd (closeDB bl1 w1)))"
proof (cases "pth \<noteq> [] \<and> (case fs w pth of None \<Rightarrow> True | Some n \<Rightarrow> \<not> IsDir n)")
  case True
  then have "snd (NewBoltLocknut L w nm pth sec mode bnames) = w"
    unfolding NewBoltLocknut_def by simp
  then show ?thesis ..
next
  case c1: False
  show ?thesis
  proof (cases "case fs w (filepath_Join L pth nm) of None \<Rightarrow> False | Some n \<Rightarrow> \<not> IsRegular n")
    case True
    with c1 have "snd (NewBoltLocknut L w nm pth sec mode bnames) = w"
      unfolding NewBoltLocknut_def Let_def by simp
    then show ?thesis ..
  next
    case c2: False
    define bl0 where "bl0 = SetSecret L
                \<lparr> name = nm, path = pth, fullPath = filepath_Join L pth nm, secret = None,
                  buckets = bnames, batchMode = mode, db = None \<rparr> sec"
    have n: "NewBoltLocknut L w nm pth sec mode bnames =
      (case openDB bl0 w of
            (Returns u (Some e), bl1, w1) \<Rightarrow> (Returns None (Some e), w1)
          | (Panics, bl1, w1) \<Rightarrow> (Panics, w1)
          | (Returns u None, bl1, w1) \<Rightarrow>
              (case closeDB bl1 w1 of (bl2, w2) \<Rightarrow> (Returns (Some bl2) None, w2)))"
      unfolding NewBoltLocknut_def Let_def bl0_def [symmetric]
      by (simp only: c1 c2 if_False)
    show ?thesis
    proof (cases bl0 w rule: openDB_result)
      case (ok bl1 w1)
      have "snd (NewBoltLocknut L w nm pth sec mode bnames) = snd (closeDB bl1 w1)"
        unfolding n ok by (simp split: prod.splits)
      with ok show ?thesis
        by blast
    next
      case (err e bl1 w1)
      have "snd (NewBoltLocknut L w nm pth sec mode bnames) = w1"
        unfolding n err by simp
      with err show ?thesis
        by blast
    qed
  qed
qed

lemma NewBoltLocknut_keys:
  assumes "world_keys_nonempty w"
  shows "world_keys_nonempty (snd (NewBoltLocknut L w nm pth sec mode bnames))"
proof -
  have "world_keys_nonempty w1 \<and> world_keys_nonempty (snd (closeDB bl1 w1))"
    if "openDB bl0 w = (r1, bl1, w1)" for bl0 r1 bl1 w1
  proof -
    note k1 = openDB_keys [OF assms that]
    have "fs (snd (closeDB bl1 w1)) = fs w1"
      by (metis closeDB_fs prod.collapse)
    with k1 show ?thesis
      by (simp add: world_keys_nonempty_def)
  qed
  with NewBoltLocknut_world [of L w nm pth sec mode bnames] assms show ?thesis
    by auto
qed

text \<open>
  No record is ever stored under the empty key. If no database file of the world holds
  one, none does after the constructor, after any public operation, Save and SaveBytes
  among them, or after SetBatchMode. A Save or SaveBytes with the empty key never
  returns success: on a bucket the store holds it returns an error (the engine's
  \<open>Put\<close> refuses the key, if no earlier step failed).
\<close>

lemma no_record_under_empty_key:
  assumes "world_keys_nonempty w"
  shows "world_keys_nonempty (snd (snd (Save L bl w b k d)))
    \<and> world_keys_nonempty (snd (snd (SaveBytes L bl w b k d')))
    \<and> world_keys_nonempty (snd (snd (run_request L bl w req)))
    \<and> world_keys_nonempty (snd (NewBoltLocknut L w nm pth sec mode bnames))
    \<and> world_keys_nonempty (snd (SetBatchMode bl w mode))
    \<and> fst (Save L bl w b [] d) \<noteq> Returns () None
    \<and> fst (SaveBytes L bl w b [] d') \<noteq> Returns () None
    \<and> (reachable L bl \<and> \<not> unopenable w (fullPath bl)
          \<and> conn_store w (BoltDB (fullPath bl)) b \<noteq> None \<longrightarrow>
        (\<exists>e. fst (Save L bl w b [] d) = Returns () (Some e))
        \<and> (\<exists>e. fst (SaveBytes L bl w b [] d') = Returns () (Some e)))"
proof -
  have 1: "world_keys_nonempty (snd (snd (Save L bl w b k d)))"
  proof -
    obtain r bl' w' where e: "Save L bl w b k d = (r, bl', w')"
      by (cases "Save L bl w b k d")
    from bracketed_keys [OF Save_bracketed [OF e] assms] e show ?thesis
      by simp
  qed
  have 2: "world_keys_nonempty (snd (snd (SaveBytes L bl w b k d')))"
  proof -
    obtain r bl' w' where e: "SaveBytes L bl w b k d' = (r, bl', w')"
      by (cases "SaveBytes L bl w b k d'")
    from bracketed_keys [OF SaveBytes_bracketed [OF e] assms] e show ?thesis
      by simp
  qed
  have 3: "world_keys_nonempty (snd (snd (run_request L bl w req)))"
  proof -
    obtain r bl' w' where e: "run_request L bl w req = (r, bl', w')"
      by (cases "run_request L bl w req")
    from bracketed_keys [OF run_request_bracketed [OF e] assms] e show ?thesis
      by simp
  qed
  have "fs (snd (SetBatchMode bl w mode)) = fs w"
    by (simp add: SetBatchMode_def Let_def closeDB_def db_Close_def)
  with assms have 4: "world_keys_nonempty (snd (SetBatchMode bl w mode))"
    by (simp add: world_keys_nonempty_def)
  have 5: "(\<exists>e. fst (Save L bl w b [] d) = Returns () (Some e))
        \<and> (\<exists>e. fst (SaveBytes L bl w b [] d') = Returns () (Some e))"
    if "reachable L bl" "\<not> unopenable w (fullPath bl)"
      "conn_store w (BoltDB (fullPath bl)) b \<noteq> None"
  proof -
    from that(3) obtain bkt where "conn_store w (BoltDB (fullPath bl)) b = Some bkt"
      by blast
    from empty_key_error [OF reachable_inv [OF that(1)] that(2) this] show ?thesis
      by blast
  qed
  note 6 = NewBoltLocknut_keys [OF assms, of L nm pth sec mode bnames]
  note 7 = Save_empty_key [of L bl w b d] SaveBytes_empty_key [of L bl w b d']
  from 1 2 3 4 5 6 7 show ?thesis
    by (intro conjI impI) simp_all
qed

lemma demo_stored_world_keys: "world_keys_nonempty demo_stored_world"
  by (auto simp: world_keys_nonempty_def demo_stored_world_def keys_nonempty_def demo_bucket_def
      split: if_splits)

lemma no_record_under_empty_key_demo:
  "world_keys_nonempty demo_stored_world
   \<and> world_keys_nonempty
        (snd (snd (SaveBytes demo_libs demo_handle demo_stored_world ''pii'' ''k'' (Some [1]))))
   \<and> fst (SaveBytes demo_libs demo_handle demo_stored_world ''pii'' ''k'' (Some [1]))
        = Returns () None
   \<and> reachable demo_libs demo_handle
   \<and> conn_store demo_stored_world (BoltDB (fullPath demo_handle)) ''pii'' \<noteq> None
   \<and> fst (SaveBytes demo_libs demo_handle demo_stored_world ''pii'' [] (Some [1]))
        = Returns () (Some ErrKeyRequired)
   \<and> fst (SaveBytes demo_libs demo_handle demo_stored_world ''pii'' [] (Some [1]))
        \<noteq> Returns () None"
proof -
  note t = no_record_under_empty_key [OF demo_stored_world_keys,
      of demo_libs demo_handle "''pii''" "''k''" "Some [1]" "Some [1]"]
  have 1: "fst (SaveBytes demo_libs demo_handle demo_stored_world ''pii'' ''k'' (Some [1]))
        = Returns () None"
    by (simp add: SaveBytes_existing_bucket [OF demo_handle_inv demo_stored_bucket(2,1)]
        demo_secret demo_Encrypt MaxKeySize_def MaxValueSize_def demo_payload_def
        demo_nonce_def demo_Seal_def)
  have 2: "fst (SaveBytes demo_libs demo_handle demo_stored_world ''pii'' [] (Some [1]))
        = Returns () (Some ErrKeyRequired)"
    by (simp add: SaveBytes_existing_bucket [OF demo_handle_inv demo_stored_bucket(2,1)]
        demo_secret demo_Encrypt)
  from t 1 2 demo_stored_world_keys demo_reachable demo_stored_bucket(1) show ?thesis
    by simp
qed

text \<open>
  C9 fails on the code. Save and SaveBytes do not test the key: an empty key reaches the
  engine's \<open>Put\<close>, which refuses it with an error on a bucket the store holds. On a
  bucket the store does not hold, the request with the empty key is not rejected with an
  error: it panics, on the nil bucket handle. GetOne and Delete, given the empty key,
  return their own error before they look for the bucket.
\<close>

theorem empty_key_on_missing_bucket_panics:
  "conn_store demo_stored_world (BoltDB (fullPath demo_handle)) ''nosuch'' = None
   \<and> fst (Save demo_libs demo_handle demo_stored_world ''nosuch'' [] (Some [1])) = Panics
   \<and> fst (SaveBytes demo_libs demo_handle demo_stored_world ''nosuch'' [] (Some [1])) = Panics
   \<and> fst (Save demo_libs demo_handle demo_stored_world ''pii'' [] (Some [1]))
        = Returns () (Some ErrKeyRequired)
   \<and> fst (SaveBytes demo_libs demo_handle demo_stored_world ''pii'' [] (Some [1]))
        = Returns () (Some ErrKeyRequired)
   \<and> fst (GetOne demo_libs demo_handle demo_stored_world ''nosuch'' [])
        = Returns [] (Some ErrKeyInvalid)
   \<and> fst (Delete demo_handle demo_stored_world ''nosuch'' [])
        = Returns () (Some ErrDeleteKeyNil)"
proof -
  have n: "[''pii'' \<mapsto> demo_bucket, ''jids'' \<mapsto> []] ''nosuch'' = None"
    and c: "''nosuch'' \<notin> set (buckets demo_handle)"
    by (simp_all add: demo_handle_def)
  note m = missing_bucket_outcomes [OF demo_handle_inv demo_stored_bucket(2) demo_stored_file n c]
  have j: "json_Marshal demo_libs [1] = Inr [1]"
    by (simp add: demo_libs_def)
  have e: "fst (Encrypt demo_libs (rand_Reader demo_stored_world) [1]
      (slice_bytes (secret demo_handle))) = Inr (demo_payload [1])"
    by (simp add: demo_secret demo_Encrypt)
  have 1: "conn_store demo_stored_world (BoltDB (fullPath demo_handle)) ''nosuch'' = None"
    by (simp add: conn_store_def demo_stored_file)
  have 2: "fst (Save demo_libs demo_handle demo_stored_world ''nosuch'' [] (Some [1])) = Panics"
    by (rule m(3) [OF j e])
  have 3: "fst (SaveBytes demo_libs demo_handle demo_stored_world ''nosuch'' [] (Some [1]))
      = Panics"
    by (rule m(2) [OF e])
  have 5: "fst (SaveBytes demo_libs demo_handle demo_stored_world ''pii'' [] (Some [1]))
        = Returns () (Some ErrKeyRequired)"
    by (simp add: SaveBytes_existing_bucket [OF demo_handle_inv demo_stored_bucket(2,1)]
        demo_secret demo_Encrypt)
  from open_existing_bucket [OF demo_handle_inv demo_stored_bucket(2,1)] obtain w1 where
    o: "openDB demo_handle demo_stored_world
      = (Returns () None, demo_handle\<lparr>db := Some (BoltDB (fullPath demo_handle))\<rparr>, w1)"
    and b: "conn_store w1 (BoltDB (fullPath demo_handle)) ''pii'' = Some demo_bucket"
    and r: "rand_Reader w1 = rand_Reader demo_stored_world"
    by blast
  have d: "db (demo_handle\<lparr>db := Some (BoltDB (fullPath demo_handle))\<rparr>)
      = Some (BoltDB (fullPath demo_handle))"
    by simp
  obtain rnd' where e': "Encrypt demo_libs (rand_Reader demo_stored_world) [1] demo_key
      = (Inr (demo_payload [1]), rnd')"
    using demo_Encrypt [of "[1]"] by (metis prod.collapse)
  have s: "secret demo_handle = Some demo_key"
    by (simp add: demo_handle_def)
  have 4: "fst (Save demo_libs demo_handle demo_stored_world ''pii'' [] (Some [1]))
        = Returns () (Some ErrKeyRequired)"
    by (simp add: Save_after_open [OF o d] Save_save_def tx_Bucket_def b r j s slice_bytes_def
        e' tx_status_Bucket_Put)
  have 6: "fst (GetOne demo_libs demo_handle demo_stored_world ''nosuch'' [])
        = Returns [] (Some ErrKeyInvalid)"
    unfolding GetOne_def o by (simp add: fst_deferred_closeDB_any)
  have 7: "fst (Delete demo_handle demo_stored_world ''nosuch'' [])
        = Returns () (Some ErrDeleteKeyNil)"
    unfolding Delete_def o by (simp add: fst_deferred_closeDB_any)
  show ?thesis
    by (intro conjI) (fact 1 2 3 4 5 6 7)+
qed

section \<open>Encryption on every write, decryption on every read\<close>

lemma map_of_bucket_insert: "map_of (bucket_insert k v b) k = Some v"
  by (induction b) auto

lemma update_op_committed:
  assumes d: "deferred_closeDB (run_update bl1 w1 fn) = (Returns () None, bl', w')"
    and c: "db bl1 = Some (BoltDB p)"
  shows "\<exists>s' rnd'. fn (conn_store w1 (BoltDB p)) (rand_Reader w1) = (Commit s', rnd')
    \<and> conn_store w' (BoltDB p) = s'"
proof -
  obtain t rnd' where f: "fn (conn_store w1 (BoltDB p)) (rand_Reader w1) = (t, rnd')"
    by (cases "fn (conn_store w1 (BoltDB p)) (rand_Reader w1)")
  obtain rb blb wb where ru: "run_update bl1 w1 fn = (rb, blb, wb)"
    by (metis prod_cases3)
  with d have rb: "rb = Returns () None" and cl: "closeDB blb wb = (bl', w')"
    by (auto simp: deferred_closeDB_def split: prod.splits)
  from ru c f rb obtain s' where t: "t = Commit s'"
    and wb: "wb = w1\<lparr>fs := (fs w1)(p \<mapsto> DBFile s'), rand_Reader := rnd'\<rparr>"
    by (cases t) (auto simp: run_update_def boltDB_update_def)
  from closeDB_fs [OF cl] wb have "conn_store w' (BoltDB p) = s'"
    by (simp add: conn_store_def)
  with f t show ?thesis
    by simp
qed

lemma SaveBytes_save_committed:
  assumes "SaveBytes_save L bl b k d s rnd = (Commit s', rnd')" and "secret bl \<noteq> None"
  shows "\<exists>bkt enc. Encrypt L rnd d (slice_bytes (secret bl)) = (Inr enc, rnd')
    \<and> s b = Some bkt \<and> s' = s(b \<mapsto> bucket_insert k enc bkt)"
  using assms
  by (auto simp: SaveBytes_save_def Let_def tx_Bucket_def Bucket_Put_def
      split: sum.splits prod.splits option.splits if_splits)

lemma Save_save_committed:
  assumes "Save_save L bl b k x s rnd = (Commit s', rnd')" and "secret bl \<noteq> None"
  shows "\<exists>bkt d enc. json_Marshal L x = Inr d
    \<and> Encrypt L rnd d (slice_bytes (secret bl)) = (Inr enc, rnd')
    \<and> s b = Some bkt \<and> s' = s(b \<mapsto> bucket_insert k enc bkt)"
  using assms
  by (auto simp: Save_save_def Let_def tx_Bucket_def Bucket_Put_def
      split: sum.splits prod.splits option.splits if_splits)

text \<open>What a successful SaveBytes leaves in the store.\<close>

lemma SaveBytes_stores_payload:
  assumes i: "handle_inv bl"
    and s: "SaveBytes L bl w b k (Some d) = (Returns () None, bl', w')"
  shows "\<exists>bkt. conn_store w' (BoltDB (fullPath bl)) b = Some bkt
    \<and> map_of bkt k = Some (take gcm_NonceSize (rand_Reader w)
        @ gcm_Seal L (slice_bytes (secret bl)) (take gcm_NonceSize (rand_Reader w)) d)"
proof (cases bl w rule: openDB_result)
  case (ok bl1 w1)
  note g = openDB_success_store [OF i ok]
  have c: "db bl1 = Some (BoltDB (fullPath bl))" and sec: "secret bl1 = secret bl"
    by (subst g(1), simp)+
  from s ok have "deferred_closeDB (run_update bl1 w1 (SaveBytes_save L bl1 b k d))
      = (Returns () None, bl', w')"
    by (simp add: SaveBytes_def)
  from update_op_committed [OF this c] obtain s' rnd' where
    f: "SaveBytes_save L bl1 b k d (conn_store w1 (BoltDB (fullPath bl))) (rand_Reader w1)
        = (Commit s', rnd')"
    and w': "conn_store w' (BoltDB (fullPath bl)) = s'"
    by blast
  from i sec have "secret bl1 \<noteq> None"
    by (simp add: handle_inv_def)
  from SaveBytes_save_committed [OF f this] obtain bkt enc where
    e: "Encrypt L (rand_Reader w1) d (slice_bytes (secret bl1)) = (Inr enc, rnd')"
    and s': "s' = (conn_store w1 (BoltDB (fullPath bl)))(b \<mapsto> bucket_insert k enc bkt)"
    by blast
  from Encrypt_Inr_cases [OF e] g(3) sec
  have "enc = take gcm_NonceSize (rand_Reader w)
        @ gcm_Seal L (slice_bytes (secret bl)) (take gcm_NonceSize (rand_Reader w)) d"
    by simp
  with w' s' show ?thesis
    by (simp add: map_of_bucket_insert)
next
  case (err e bl1 w1)
  with s show ?thesis
    by (simp add: SaveBytes_def)
qed

lemma Save_stores_payload:
  assumes i: "handle_inv bl"
    and s: "Save L bl w b k (Some x) = (Returns () None, bl', w')"
  shows "\<exists>bkt d. json_Marshal L x = Inr d
    \<and> conn_store w' (BoltDB (fullPath bl)) b = Some bkt
    \<and> map_of bkt k = Some (take gcm_NonceSize (rand_Reader w)
        @ gcm_Seal L (slice_bytes (secret bl)) (take gcm_NonceSize (rand_Reader w)) d)"
proof (cases bl w rule: openDB_result)
  case (ok bl1 w1)
  note g = openDB_success_store [OF i ok]
  have c: "db bl1 = Some (BoltDB (fullPath bl))" and sec: "secret bl1 = secret bl"
    by (subst g(1), simp)+
  from s ok have "deferred_closeDB (run_update bl1 w1 (Save_save L bl1 b k x))
      = (Returns () None, bl', w')"
    by (simp add: Save_def)
  from update_op_committed [OF this c] obtain s' rnd' where
    f: "Save_save L bl1 b k x (conn_store w1 (BoltDB (fullPath bl))) (rand_Reader w1)
        = (Commit s', rnd')"
    and w': "conn_store w' (BoltDB (fullPath bl)) = s'"
    by blast
  from i sec have "secret bl1 \<noteq> None"
    by (simp add: handle_inv_def)
  from Save_save_committed [OF f this] obtain bkt d enc where
    m: "json_Marshal L x = Inr d"
    and e: "Encrypt L (rand_Reader w1) d (slice_bytes (secret bl1)) = (Inr enc, rnd')"
    and s': "s' = (conn_store w1 (BoltDB (fullPath bl)))(b \<mapsto> bucket_insert k enc bkt)"
    by blast
  from Encrypt_Inr_cases [OF e] g(3) sec
  have "enc = take gcm_NonceSize (rand_Reader w)
        @ gcm_Seal L (slice_bytes (secret bl)) (take gcm_NonceSize (rand_Reader w)) d"
    by simp
  with w' s' m show ?thesis
    by (simp add: map_of_bucket_insert)
next
  case (err e bl1 w1)
  with s show ?thesis
    by (simp add: Save_def)
qed

lemma GetOne_seek_found:
  assumes "GetOne_seek L bl b k s = (v, None)" and "secret bl \<noteq> None"
  shows "v = [] \<or> (\<exists>bkt k' stored. s b = Some bkt \<and> (k', stored) \<in> set bkt
    \<and> Decrypt L stored (slice_bytes (secret bl)) = Inr v)"
proof (cases "s b")
  case None
  with assms show ?thesis
    by (simp add: GetOne_seek_def tx_Bucket_def)
next
  case (Some bkt)
  show ?thesis
  proof (cases "cursor_Seek bkt k")
    case Nil
    with assms Some show ?thesis
      by (simp add: GetOne_seek_def tx_Bucket_def cursor_kv_def)
  next
    case (Cons x rest)
    obtain k' stored where x: "x = (k', stored)"
      by (cases x)
    with Cons cursor_Seek_subset [of bkt k] have "(k', stored) \<in> set bkt"
      by auto
    with assms Some Cons x show ?thesis
      by (auto simp: GetOne_seek_def tx_Bucket_def cursor_kv_def split: if_splits sum.splits)
  qed
qed

lemma store_before_open:
  assumes "\<forall>b. s1 b = s0 b \<or> (s0 b = None \<and> b \<in> B \<and> s1 b = Some [])"
    and "s1 b = Some bkt" and "x \<in> set bkt"
  shows "s0 b = Some bkt"
  using assms by (metis empty_iff list.set(1) option.inject)

text \<open>A value GetOne returns is what Decrypt made of a stored value.\<close>

lemma GetOne_returns_decrypted:
  assumes i: "handle_inv bl" and g: "GetOne L bl w b k = (Returns v None, bl', w')"
  shows "v = [] \<or> (\<exists>bkt k' stored. conn_store w (BoltDB (fullPath bl)) b = Some bkt
    \<and> (k', stored) \<in> set bkt \<and> Decrypt L stored (slice_bytes (secret bl)) = Inr v)"
proof (cases bl w rule: openDB_result)
  case (ok bl1 w1)
  note o = openDB_success_store [OF i ok]
  have c: "db bl1 = Some (BoltDB (fullPath bl))" and sec: "secret bl1 = secret bl"
    by (subst o(1), simp)+
  from i sec have sn: "secret bl1 \<noteq> None"
    by (simp add: handle_inv_def)
  show ?thesis
  proof (cases "k = []")
    case True
    with g ok show ?thesis
      by (auto simp: GetOne_def deferred_closeDB_def split: prod.splits)
  next
    case False
    from g have "fst (GetOne L bl w b k) = Returns v None"
      by simp
    with GetOne_after_open [OF ok c False, of L b]
    have "GetOne_seek L bl1 b k (conn_store w1 (BoltDB (fullPath bl))) = (v, None)"
      by (auto split: prod.splits option.splits)
    from GetOne_seek_found [OF this sn] sec store_before_open [OF o(2)] show ?thesis
      by metis
  qed
next
  case (err e bl1 w1)
  with g show ?thesis
    by (simp add: GetOne_def)
qed

lemma GetByPrefix_loop_decrypted:
  assumes "GetByPrefix_loop L bl p c res = (res', err)" and "secret bl \<noteq> None"
    and "res' k = Some v"
  shows "res k = Some v \<or> (\<exists>stored. (k, stored) \<in> set c
    \<and> Decrypt L stored (slice_bytes (secret bl)) = Inr v)"
  using assms
proof (induction c arbitrary: res)
  case Nil
  then show ?case by simp
next
  case (Cons x c)
  obtain k0 v0 where x: "x = (k0, v0)"
    by (cases x)
  show ?case
  proof (cases "\<not> prefix p k0 \<or> (length p = 0 \<and> length k0 = 0 \<and> length v0 = 0)")
    case True
    with Cons.prems x show ?thesis
      by auto
  next
    case False
    show ?thesis
    proof (cases "Decrypt L v0 (slice_bytes (secret bl))")
      case (Inl e)
      with Cons.prems x False show ?thesis
        by auto
    next
      case (Inr dec)
      with Cons.prems(1,2) x False
      have "GetByPrefix_loop L bl p c (res(k0 \<mapsto> dec)) = (res', err)"
        by auto
      from Cons.IH [OF this Cons.prems(2,3)] Inr x show ?thesis
        by (auto split: if_splits)
    qed
  qed
qed

text \<open>Every entry of the map GetByPrefix returns is what Decrypt made of a stored value.\<close>

lemma GetByPrefix_returns_decrypted:
  assumes i: "handle_inv bl"
    and g: "GetByPrefix L bl w b p = (Returns results err, bl', w')"
    and r: "results k = Some v"
  shows "\<exists>bkt stored. conn_store w (BoltDB (fullPath bl)) b = Some bkt
    \<and> (k, stored) \<in> set bkt \<and> Decrypt L stored (slice_bytes (secret bl)) = Inr v"
proof (cases bl w rule: openDB_result)
  case (ok bl1 w1)
  note o = openDB_success_store [OF i ok]
  have c: "db bl1 = Some (BoltDB (fullPath bl))" and sec: "secret bl1 = secret bl"
    by (subst o(1), simp)+
  from i sec have sn: "secret bl1 \<noteq> None"
    by (simp add: handle_inv_def)
  from g have "fst (GetByPrefix L bl w b p) = Returns results err"
    by simp
  with GetByPrefix_after_open [OF ok c, of L b p]
  have s: "GetByPrefix_seekPrefix L bl1 b p (conn_store w1 (BoltDB (fullPath bl))) = (results, err)"
    by (auto split: prod.splits)
  with r obtain bkt where b: "conn_store w1 (BoltDB (fullPath bl)) b = Some bkt"
    and l: "GetByPrefix_loop L bl1 p (cursor_Seek bkt p) Map.empty = (results, err)"
    by (cases "conn_store w1 (BoltDB (fullPath bl)) b")
       (auto simp: GetByPrefix_seekPrefix_def tx_Bucket_def)
  from GetByPrefix_loop_decrypted [OF l sn r] cursor_Seek_subset [of bkt p]
  obtain stored where m: "(k, stored) \<in> set bkt"
    and d: "Decrypt L stored (slice_bytes (secret bl1)) = Inr v"
    by auto
  from store_before_open [OF o(2) b m] m d sec show ?thesis
    by auto
next
  case (err e bl1 w1)
  with g r show ?thesis
    by (auto simp: GetByPrefix_def)
qed

lemma SetSecret_secret_eq:
  "secret (SetSecret L bl sec) =
    (if length (slice_bytes sec) < 32 then Some (sha256_Sum256 L (slice_bytes sec)) else sec)"
  by (simp add: SetSecret_def Let_def)

lemma SetSecret_32:
  assumes "sum256_size L" and "length (slice_bytes sec) \<le> 32"
  shows "length (slice_bytes (secret (SetSecret L bl sec))) = 32"
  using assms by (auto simp: SetSecret_secret_eq sum256_size_def slice_bytes_def)

lemma NewBoltLocknut_secret:
  assumes "NewBoltLocknut L w nm pth sec mode bnames = (Returns (Some bl) None, w')"
  shows "secret bl = secret (SetSecret L bl sec)"
proof -
  define bl0 where "bl0 = SetSecret L
                \<lparr> name = nm, path = pth, fullPath = filepath_Join L pth nm, secret = None,
                  buckets = bnames, batchMode = mode, db = None \<rparr> sec"
  have s0: "secret bl0 = secret (SetSecret L bl sec)"
    unfolding bl0_def by (simp add: SetSecret_secret_eq)
  obtain r1 bl1 w1 where o: "openDB bl0 w = (r1, bl1, w1)"
    by (metis prod_cases3)
  from assms o have r1: "r1 = Returns () None" and c: "closeDB bl1 w1 = (bl, w')"
    by (auto simp: NewBoltLocknut_def Let_def bl0_def [symmetric]
        split: if_splits prod.splits outcome.splits option.splits)
  from openDB_success_db [OF o [unfolded r1]] obtain x where "bl1 = bl0\<lparr>db := Some x\<rparr>"
    by blast
  then have "secret bl1 = secret bl0"
    by simp
  moreover from c have "secret bl = secret bl1"
    by (auto simp: closeDB_def split: if_splits)
  ultimately show ?thesis
    using s0 by simp
qed

text \<open>
  C10 fails on the code: after SetSecret with a secret of 33 bytes the stored secret is
  those 33 bytes, not a 32-byte value. SetSecret hashes a secret of fewer than 32 bytes
  and keeps every other one as it is.
\<close>

theorem SetSecret_keeps_33_bytes:
  "secret (SetSecret demo_libs demo_handle (Some (replicate 33 9))) = Some (replicate 33 9)
   \<and> length (slice_bytes (secret (SetSecret demo_libs demo_handle (Some (replicate 33 9))))) \<noteq> 32"
  by (simp add: SetSecret_secret_eq slice_bytes_def)

text \<open>
  What does hold of the stored secret. On every handle a caller can hold it is non-nil;
  the constructor and SetSecret leave a non-nil secret for every secret supplied, nil and
  empty included, and one of 32 bytes whenever the supplied secret has at most 32 bytes.
  So encryption is applied on every write and decryption on every read: the value a
  successful Save or SaveBytes leaves under the key is the payload Encrypt made of the
  (encoded) data, nonce first, and every value GetOne or GetByPrefix returns is what
  Decrypt made of a stored value (or, for GetOne, the empty result).
\<close>

lemma secret_never_nil:
  assumes "sum256_size L" and "reachable L bl"
  shows "secret bl \<noteq> None
    \<and> (\<forall>sec. secret (SetSecret L bl sec) \<noteq> None
          \<and> (length (slice_bytes sec) \<le> 32
              \<longrightarrow> length (slice_bytes (secret (SetSecret L bl sec))) = 32))
    \<and> (\<forall>w nm pth sec mode bnames bl0 w'.
          NewBoltLocknut L w nm pth sec mode bnames = (Returns (Some bl0) None, w') \<longrightarrow>
          secret bl0 \<noteq> None
          \<and> (length (slice_bytes sec) \<le> 32 \<longrightarrow> length (slice_bytes (secret bl0)) = 32))
    \<and> (\<forall>w b k d bl' w'.
          SaveBytes L bl w b k (Some d) = (Returns () None, bl', w') \<longrightarrow>
          (\<exists>bkt. conn_store w' (BoltDB (fullPath bl)) b = Some bkt
             \<and> map_of bkt k = Some (take gcm_NonceSize (rand_Reader w)
                 @ gcm_Seal L (slice_bytes (secret bl)) (take gcm_NonceSize (rand_Reader w)) d)))
    \<and> (\<forall>w b k x bl' w'.
          Save L bl w b k (Some x) = (Returns () None, bl', w') \<longrightarrow>
          (\<exists>bkt d. json_Marshal L x = Inr d
             \<and> conn_store w' (BoltDB (fullPath bl)) b = Some bkt
             \<and> map_of bkt k = Some (take gcm_NonceSize (rand_Reader w)
                 @ gcm_Seal L (slice_bytes (secret bl)) (take gcm_NonceSize (rand_Reader w)) d)))
    \<and> (\<forall>w b k v bl' w'.
          GetOne L bl w b k = (Returns v None, bl', w') \<longrightarrow>
          v = [] \<or> (\<exists>bkt k' stored. conn_store w (BoltDB (fullPath bl)) b = Some bkt
             \<and> (k', stored) \<in> set bkt
             \<and> Decrypt L stored (slice_bytes (secret bl)) = Inr v))
    \<and> (\<forall>w b p results err bl' w' k v.
          GetByPrefix L bl w b p = (Returns results err, bl', w') \<and> results k = Some v \<longrightarrow>
          (\<exists>bkt stored. conn_store w (BoltDB (fullPath bl)) b = Some bkt
             \<and> (k, stored) \<in> set bkt
             \<and> Decrypt L stored (slice_bytes (secret bl)) = Inr v))"
proof -
  note i = reachable_inv [OF assms(2)]
  have 1: "secret bl \<noteq> None"
    using i by (simp add: handle_inv_def)
  have 2: "\<forall>sec. secret (SetSecret L bl sec) \<noteq> None
          \<and> (length (slice_bytes sec) \<le> 32
              \<longrightarrow> length (slice_bytes (secret (SetSecret L bl sec))) = 32)"
    using SetSecret_secret [of L bl] SetSecret_32 [OF assms(1), of _ bl] by simp
  have 3: "\<forall>w nm pth sec mode bnames bl0 w'.
          NewBoltLocknut L w nm pth sec mode bnames = (Returns (Some bl0) None, w') \<longrightarrow>
          secret bl0 \<noteq> None
          \<and> (length (slice_bytes sec) \<le> 32 \<longrightarrow> length (slice_bytes (secret bl0)) = 32)"
  proof (intro allI impI)
    fix w nm pth sec mode bnames bl0 w'
    assume "NewBoltLocknut L w nm pth sec mode bnames = (Returns (Some bl0) None, w')"
    from NewBoltLocknut_secret [OF this] SetSecret_secret [of L bl0 sec]
      SetSecret_32 [OF assms(1), of sec bl0]
    show "secret bl0 \<noteq> None
          \<and> (length (slice_bytes sec) \<le> 32 \<longrightarrow> length (slice_bytes (secret bl0)) = 32)"
      by simp
  qed
  have 4: "\<forall>w b k d bl' w'.
          SaveBytes L bl w b k (Some d) = (Returns () None, bl', w') \<longrightarrow>
          (\<exists>bkt. conn_store w' (BoltDB (fullPath bl)) b = Some bkt
             \<and> map_of bkt k = Some (take gcm_NonceSize (rand_Reader w)
                 @ gcm_Seal L (slice_bytes (secret bl)) (take gcm_NonceSize (rand_Reader w)) d))"
    by (intro allI impI) (rule SaveBytes_stores_payload [OF i])
  have 5: "\<forall>w b k x bl' w'.
          Save L bl w b k (Some x) = (Returns () None, bl', w') \<longrightarrow>
          (\<exists>bkt d. json_Marshal L x = Inr d
             \<and> conn_store w' (BoltDB (fullPath bl)) b = Some bkt
             \<and> map_of bkt k = Some (take gcm_NonceSize (rand_Reader w)
                 @ gcm_Seal L (slice_bytes (secret bl)) (take gcm_NonceSize (rand_Reader w)) d))"
    by (intro allI impI) (rule Save_stores_payload [OF i])
  have 6: "\<forall>w b k v bl' w'.
          GetOne L bl w b k = (Returns v None, bl', w') \<longrightarrow>
          v = [] \<or> (\<exists>bkt k' stored. conn_store w (BoltDB (fullPath bl)) b = Some bkt
             \<and> (k', stored) \<in> set bkt
             \<and> Decrypt L stored (slice_bytes (secret bl)) = Inr v)"
    by (intro allI impI) (rule GetOne_returns_decrypted [OF i])
  have 7: "\<forall>w b p results err bl' w' k v.
          GetByPrefix L bl w b p = (Returns results err, bl', w') \<and> results k = Some v \<longrightarrow>
          (\<exists>bkt stored. conn_store w (BoltDB (fullPath bl)) b = Some bkt
             \<and> (k, stored) \<in> set bkt
             \<and> Decrypt L stored (slice_bytes (secret bl)) = Inr v)"
  proof (intro allI impI)
    fix w b p results err bl' w' k v
    assume "GetByPrefix L bl w b p = (Returns results err, bl', w') \<and> results k = Some v"
    then show "\<exists>bkt stored. conn_store w (BoltDB (fullPath bl)) b = Some bkt
             \<and> (k, stored) \<in> set bkt
             \<and> Decrypt L stored (slice_bytes (secret bl)) = Inr v"
      using GetByPrefix_returns_decrypted [OF i] by blast
  qed
  show ?thesis
    by (intro conjI) (fact 1 2 3 4 5 6 7)+
qed

lemma demo_Decrypt: "Decrypt demo_libs (demo_payload p) demo_key = Inr p"
  by (simp add: Decrypt_def aes_NewCipher_def demo_key_def demo_payload_def demo_nonce_def
      gcm_NonceSize_def demo_libs_def demo_Open_Seal)

lemma demo_GetOne_ta:
  "fst (GetOne demo_libs demo_handle demo_stored_world ''pii'' ''ta'') = Returns [2, 3] None"
proof -
  have k: "''ta'' \<noteq> []"
    by simp
  have c: "cursor_Seek demo_bucket ''ta''
      = [(''taylor'', demo_payload [2, 3]), (''test'', demo_payload [])]"
    by (simp add: cursor_Seek_def demo_bucket_def)
  show ?thesis
    by (simp add: GetOne_existing_bucket [OF demo_handle_inv demo_stored_bucket(2,1) k] c
        demo_secret demo_Decrypt)
qed

lemma secret_never_nil_demo:
  "sum256_size demo_libs \<and> reachable demo_libs demo_handle \<and> secret demo_handle \<noteq> None
   \<and> length (slice_bytes (None :: bytes option)) \<le> 32
   \<and> length (slice_bytes (secret (SetSecret demo_libs demo_handle None))) = 32
   \<and> length (slice_bytes (secret (SetSecret demo_libs demo_handle (Some [1, 2, 3])))) = 32
   \<and> fst (GetOne demo_libs demo_handle demo_stored_world ''pii'' ''ta'') = Returns [2, 3] None
   \<and> (\<exists>bkt k' stored.
         conn_store demo_stored_world (BoltDB (fullPath demo_handle)) ''pii'' = Some bkt
         \<and> (k', stored) \<in> set bkt
         \<and> Decrypt demo_libs stored (slice_bytes (secret demo_handle)) = Inr [2, 3])"
proof -
  note t = secret_never_nil [OF demo_sum256_size demo_reachable]
  have l: "length (slice_bytes (None :: bytes option)) \<le> 32"
    "length (slice_bytes (Some [1, 2, 3 :: byte])) \<le> 32"
    by (simp_all add: slice_bytes_def)
  note t2 = t [THEN conjunct2, THEN conjunct1, rule_format, THEN conjunct2, rule_format]
  have s: "length (slice_bytes (secret (SetSecret demo_libs demo_handle None))) = 32"
    "length (slice_bytes (secret (SetSecret demo_libs demo_handle (Some [1, 2, 3])))) = 32"
    by (rule t2 [OF l(1)], rule t2 [OF l(2)])
  obtain bl' w' where g: "GetOne demo_libs demo_handle demo_stored_world ''pii'' ''ta''
      = (Returns [2, 3] None, bl', w')"
    using demo_GetOne_ta by (metis prod.collapse)
  note t6 = t [THEN conjunct2, THEN conjunct2, THEN conjunct2, THEN conjunct2, THEN conjunct2,
      THEN conjunct1, rule_format]
  from t6 [OF g] have "[2, 3 :: byte] = [] \<or> (\<exists>bkt k' stored.
         conn_store demo_stored_world (BoltDB (fullPath demo_handle)) ''pii'' = Some bkt
         \<and> (k', stored) \<in> set bkt
         \<and> Decrypt demo_libs stored (slice_bytes (secret demo_handle)) = Inr [2, 3])"
    .
  then have d: "\<exists>bkt k' stored.
         conn_store demo_stored_world (BoltDB (fullPath demo_handle)) ''pii'' = Some bkt
         \<and> (k', stored) \<in> set bkt
         \<and> Decrypt demo_libs stored (slice_bytes (secret demo_handle)) = Inr [2, 3]"
    by simp
  note t1 = t [THEN conjunct1]
  from t1 demo_sum256_size demo_reachable l(1) s demo_GetOne_ta d show ?thesis
    by (intro conjI)
qed

section \<open>GetByPrefix and a record that does not decrypt\<close>

lemma GetByPrefix_loop_fails:
  assumes s: "secret bl \<noteq> None"
    and ok: "\<forall>(k', v') \<in> set ok. prefix p k' \<and> k' \<noteq> []
          \<and> (\<exists>d. Decrypt L v' (slice_bytes (secret bl)) = Inr d)"
    and k: "prefix p k" "k \<noteq> []" and f: "Decrypt L v (slice_bytes (secret bl)) = Inl e"
    and d: "distinct (map fst ok)"
  shows "\<exists>res'. GetByPrefix_loop L bl p (ok @ (k, v) # rest) res
        = (res', Some (DecryptErrorFromDB e))
      \<and> dom res' = dom res \<union> fst ` set ok
      \<and> (\<forall>k'. k' \<notin> fst ` set ok \<longrightarrow> res' k' = res k')
      \<and> (\<forall>k' v'. (k', v') \<in> set ok \<longrightarrow>
            (\<exists>d. Decrypt L v' (slice_bytes (secret bl)) = Inr d \<and> res' k' = Some d))"
  using ok d
proof (induction ok arbitrary: res)
  case Nil
  with s k f show ?case
    by simp
next
  case (Cons x ok)
  obtain k0 v0 where x: "x = (k0, v0)"
    by (cases x)
  with Cons.prems obtain d0 where p0: "prefix p k0" "k0 \<noteq> []"
    and d0: "Decrypt L v0 (slice_bytes (secret bl)) = Inr d0"
    and n0: "k0 \<notin> fst ` set ok"
    by auto
  from Cons.prems x have "\<forall>(k', v') \<in> set ok. prefix p k' \<and> k' \<noteq> []
          \<and> (\<exists>d. Decrypt L v' (slice_bytes (secret bl)) = Inr d)" "distinct (map fst ok)"
    by auto
  from Cons.IH [OF this, of "res(k0 \<mapsto> d0)"] obtain res' where
    l: "GetByPrefix_loop L bl p (ok @ (k, v) # rest) (res(k0 \<mapsto> d0))
        = (res', Some (DecryptErrorFromDB e))"
    and dm: "dom res' = dom (res(k0 \<mapsto> d0)) \<union> fst ` set ok"
    and un: "\<forall>k'. k' \<notin> fst ` set ok \<longrightarrow> res' k' = (res(k0 \<mapsto> d0)) k'"
    and vl: "\<forall>k' v'. (k', v') \<in> set ok \<longrightarrow>
            (\<exists>d. Decrypt L v' (slice_bytes (secret bl)) = Inr d \<and> res' k' = Some d)"
    by blast
  have 1: "GetByPrefix_loop L bl p ((x # ok) @ (k, v) # rest) res
        = (res', Some (DecryptErrorFromDB e))"
    using x p0 d0 s l by simp
  have 2: "dom res' = dom res \<union> fst ` set (x # ok)"
    using dm x by auto
  have 3: "\<forall>k'. k' \<notin> fst ` set (x # ok) \<longrightarrow> res' k' = res k'"
    using un x by auto
  have 4: "\<forall>k' v'. (k', v') \<in> set (x # ok) \<longrightarrow>
            (\<exists>d. Decrypt L v' (slice_bytes (secret bl)) = Inr d \<and> res' k' = Some d)"
  proof (intro allI impI)
    fix k' v'
    assume "(k', v') \<in> set (x # ok)"
    then consider "(k', v') = (k0, v0)" | "(k', v') \<in> set ok"
      using x by auto
    then show "\<exists>d. Decrypt L v' (slice_bytes (secret bl)) = Inr d \<and> res' k' = Some d"
    proof cases
      case 1
      with un n0 d0 show ?thesis
        by simp
    next
      case 2
      with vl show ?thesis
        by blast
    qed
  qed
  from 1 2 3 4 show ?case
    by blast
qed

lemma distinct_cursor_Seek:
  "distinct (map fst bkt) \<Longrightarrow> distinct (map fst (cursor_Seek bkt p))"
  unfolding cursor_Seek_def by (induction bkt) auto

text \<open>GetByPrefix on a bucket the store holds.\<close>

lemma GetByPrefix_existing_bucket:
  assumes i: "handle_inv bl" and u: "\<not> unopenable w (fullPath bl)"
    and st: "conn_store w (BoltDB (fullPath bl)) b = Some bkt"
  shows "fst (GetByPrefix L bl w b p) =
    (case GetByPrefix_loop L bl p (cursor_Seek bkt p) Map.empty of
       (results, err) \<Rightarrow> Returns results err)"
proof -
  from open_existing_bucket [OF i u st] obtain w1 where
    o: "openDB bl w = (Returns () None, bl\<lparr>db := Some (BoltDB (fullPath bl))\<rparr>, w1)"
    and m: "conn_store w1 (BoltDB (fullPath bl)) b = Some bkt"
    by blast
  have c: "db (bl\<lparr>db := Some (BoltDB (fullPath bl))\<rparr>) = Some (BoltDB (fullPath bl))"
    by simp
  have e: "GetByPrefix_loop L (bl\<lparr>db := Some (BoltDB (fullPath bl))\<rparr>) p c0 res
      = GetByPrefix_loop L bl p c0 res" for c0 res
    by (induction c0 arbitrary: res) (auto split: sum.splits)
  show ?thesis
    by (simp add: GetByPrefix_after_open [OF o c] GetByPrefix_seekPrefix_def tx_Bucket_def m e)
qed

text \<open>
  C3 as stated fails on the code. The bucket holds "a" with a sound payload, then "b" with
  three bytes that are no payload, then "c". GetByPrefix over the whole bucket returns the
  decrypt error, and with it the map that holds the record decrypted before the failure.
\<close>

theorem GetByPrefix_returns_partial_result:
  "fst (GetByPrefix demo_libs demo_handle demo_corrupt_world ''pii'' []) \<noteq> Panics
   \<and> returned_error (fst (GetByPrefix demo_libs demo_handle demo_corrupt_world ''pii'' []))
      = Some (DecryptErrorFromDB ErrCiphertextTooShort)
   \<and> returned (fst (GetByPrefix demo_libs demo_handle demo_corrupt_world ''pii'' [])) ''a''
      = Some [1]
   \<and> returned (fst (GetByPrefix demo_libs demo_handle demo_corrupt_world ''pii'' [])) ''c''
      = None"
proof -
  have u: "\<not> unopenable demo_corrupt_world (fullPath demo_handle)"
    and st: "conn_store demo_corrupt_world (BoltDB (fullPath demo_handle)) ''pii''
      = Some [(''a'', demo_payload [1]), (''b'', [0, 0, 0]), (''c'', demo_payload [2])]"
    by (simp_all add: conn_store_def demo_corrupt_world_def demo_handle_def demo_world_def)
  have s: "secret demo_handle \<noteq> None"
    by (simp add: demo_handle_def)
  have d: "Decrypt demo_libs [0, 0, 0] demo_key = Inl ErrCiphertextTooShort"
    by (simp add: Decrypt_def aes_NewCipher_def demo_key_def gcm_NonceSize_def)
  have "fst (GetByPrefix demo_libs demo_handle demo_corrupt_world ''pii'' [])
    = Returns [''a'' \<mapsto> [1]] (Some (DecryptErrorFromDB ErrCiphertextTooShort))"
    using s
    by (simp add: GetByPrefix_existing_bucket [OF demo_handle_inv u st] cursor_Seek_def
        demo_secret demo_Decrypt d)
  then show ?thesis
    by simp
qed

text \<open>
  C3, amended. If, during GetByPrefix on an existing bucket, decryption of a record fails
  after the records before it (from the cursor's start, all with the prefix) decrypted,
  the scan stops there and GetByPrefix returns the wrapped decrypt error, and with it the
  map of exactly the records decrypted before the failure: each under its key with its
  plaintext, and no other key.
\<close>

theorem GetByPrefix_decrypt_failure:
  assumes "reachable L bl" and "\<not> unopenable w (fullPath bl)"
    and "conn_store w (BoltDB (fullPath bl)) b = Some bkt" and "distinct (map fst bkt)"
    and "cursor_Seek bkt p = ok @ (k, v) # rest"
    and "\<forall>(k', v') \<in> set ok. prefix p k' \<and> k' \<noteq> []
          \<and> (\<exists>d. Decrypt L v' (slice_bytes (secret bl)) = Inr d)"
    and "prefix p k" and "k \<noteq> []" and "Decrypt L v (slice_bytes (secret bl)) = Inl e"
  shows "\<exists>results. fst (GetByPrefix L bl w b p) = Returns results (Some (DecryptErrorFromDB e))
      \<and> dom results = fst ` set ok
      \<and> (\<forall>k' v'. (k', v') \<in> set ok \<longrightarrow>
            (\<exists>d. Decrypt L v' (slice_bytes (secret bl)) = Inr d \<and> results k' = Some d))
      \<and> results k = None \<and> (\<forall>k' \<in> fst ` set rest. results k' = None)"
proof -
  note i = reachable_inv [OF assms(1)]
  from i have s: "secret bl \<noteq> None"
    by (simp add: handle_inv_def)
  from distinct_cursor_Seek [OF assms(4), of p] assms(5)
  have dd: "distinct (map fst (ok @ (k, v) # rest))"
    by simp
  then have d: "distinct (map fst ok)" and nk: "k \<notin> fst ` set ok"
    and nr: "\<forall>k' \<in> fst ` set rest. k' \<notin> fst ` set ok"
    by auto
  from GetByPrefix_loop_fails [OF s assms(6,7,8,9) d, of rest Map.empty]
  obtain res' where l: "GetByPrefix_loop L bl p (ok @ (k, v) # rest) Map.empty
        = (res', Some (DecryptErrorFromDB e))"
    and dm: "dom res' = fst ` set ok"
    and vl: "\<forall>k' v'. (k', v') \<in> set ok \<longrightarrow>
            (\<exists>d. Decrypt L v' (slice_bytes (secret bl)) = Inr d \<and> res' k' = Some d)"
    by auto
  have g: "fst (GetByPrefix L bl w b p) = Returns res' (Some (DecryptErrorFromDB e))"
    by (simp add: GetByPrefix_existing_bucket [OF i assms(2,3)] assms(5) l)
  from dm nk have "res' k = None"
    by blast
  moreover from dm nr have "\<forall>k' \<in> fst ` set rest. res' k' = None"
    by blast
  ultimately show ?thesis
    using g dm vl by blast
qed

theorem GetByPrefix_decrypt_failure_witness:
  "reachable demo_libs demo_handle
   \<and> conn_store demo_corrupt_world (BoltDB (fullPath demo_handle)) ''pii''
      = Some [(''a'', demo_payload [1]), (''b'', [0, 0, 0]), (''c'', demo_payload [2])]
   \<and> Decrypt demo_libs (demo_payload [1]) (slice_bytes (secret demo_handle)) = Inr [1]
   \<and> Decrypt demo_libs [0, 0, 0] (slice_bytes (secret demo_handle)) = Inl ErrCiphertextTooShort
   \<and> returned_error (fst (GetByPrefix demo_libs demo_handle demo_corrupt_world ''pii'' []))
      = Some (DecryptErrorFromDB ErrCiphertextTooShort)
   \<and> dom (returned (fst (GetByPrefix demo_libs demo_handle demo_corrupt_world ''pii'' [])))
      = {''a''}"
proof -
  have u: "\<not> unopenable demo_corrupt_world (fullPath demo_handle)"
    and st: "conn_store demo_corrupt_world (BoltDB (fullPath demo_handle)) ''pii''
      = Some [(''a'', demo_payload [1]), (''b'', [0, 0, 0]), (''c'', demo_payload [2])]"
    by (simp_all add: conn_store_def demo_corrupt_world_def demo_handle_def demo_world_def)
  have di: "distinct (map fst
      [(''a'', demo_payload [1]), (''b'', [0 :: byte, 0, 0]), (''c'', demo_payload [2])])"
    by simp
  have c: "cursor_Seek [(''a'', demo_payload [1]), (''b'', [0, 0, 0]), (''c'', demo_payload [2])] []
      = [(''a'', demo_payload [1])] @ (''b'', [0, 0, 0]) # [(''c'', demo_payload [2])]"
    by (simp add: cursor_Seek_def)
  have d1: "Decrypt demo_libs (demo_payload [1]) (slice_bytes (secret demo_handle)) = Inr [1]"
    by (simp add: demo_secret demo_Decrypt)
  have d2: "Decrypt demo_libs [0, 0, 0] (slice_bytes (secret demo_handle))
      = Inl ErrCiphertextTooShort"
    by (simp add: demo_secret Decrypt_def aes_NewCipher_def demo_key_def gcm_NonceSize_def)
  have a: "\<forall>(k', v') \<in> set [(''a'', demo_payload [1])]. prefix [] k' \<and> k' \<noteq> []
          \<and> (\<exists>d. Decrypt demo_libs v' (slice_bytes (secret demo_handle)) = Inr d)"
    using d1 by simp
  have p: "prefix [] ''b''" and n: "''b'' \<noteq> []"
    by simp_all
  from GetByPrefix_decrypt_failure [OF demo_reachable u st di c a p n d2]
  obtain results where
    "fst (GetByPrefix demo_libs demo_handle demo_corrupt_world ''pii'' [])
      = Returns results (Some (DecryptErrorFromDB ErrCiphertextTooShort))"
    and "dom results = fst ` set [(''a'', demo_payload [1])]"
    by blast
  with demo_reachable st d1 d2 show ?thesis
    by simp
qed

section \<open>The connection over a request\<close>

text \<open>
  Whether the handle opens a connection is decided by \<open>bbolt.Open\<close> alone, once no
  configured bucket name is empty.
\<close>

lemma openDB_opens:
  assumes nb: "\<not> (batchMode bl \<and> db bl \<noteq> None)" and e: "[] \<notin> set (buckets bl)"
    and o: "bbolt_Open w (fullPath bl) = Inr w0"
  shows "\<exists>w1. openDB bl w = (Returns () None, bl\<lparr>db := Some (BoltDB (fullPath bl))\<rparr>, w1)
    \<and> opens w1 = Suc (opens w) \<and> closes w1 = closes w"
proof -
  from initbuckets_total [OF e] obtain s' where
    i: "initbuckets (buckets bl) (conn_store w0 (BoltDB (fullPath bl))) = Inr s'"
    by blast
  from openDB_ok [OF nb o i] bbolt_Open_Inr [OF o] show ?thesis
    by simp
qed

lemma bracketed_opened:
  assumes b: "bracketed bl w r bl' w'" and nb: "\<not> (batchMode bl \<and> db bl \<noteq> None)"
    and e: "[] \<notin> set (buckets bl)" and o: "bbolt_Open w (fullPath bl) = Inr w0"
  shows "opens w' = Suc (opens w)"
    and "\<not> batchMode bl \<Longrightarrow> db bl' = None \<and> closes w' = Suc (closes w)"
    and "batchMode bl \<Longrightarrow> db bl' = Some (BoltDB (fullPath bl)) \<and> closes w' = closes w"
proof -
  from openDB_opens [OF nb e o] obtain w1 where
    op: "openDB bl w = (Returns () None, bl\<lparr>db := Some (BoltDB (fullPath bl))\<rparr>, w1)"
    and c1: "opens w1 = Suc (opens w)" "closes w1 = closes w"
    by blast
  from b op obtain wb where
    cl: "closeDB (bl\<lparr>db := Some (BoltDB (fullPath bl))\<rparr>) wb = (bl', w')"
    and cb: "opens wb = opens w1" "closes wb = closes w1"
    unfolding bracketed_def by auto
  from cl cb c1 show "opens w' = Suc (opens w)"
    by (auto simp: closeDB_def db_Close_def split: if_splits)
  from cl cb c1 show "db bl' = None \<and> closes w' = Suc (closes w)" if "\<not> batchMode bl"
    using that by (auto simp: closeDB_def db_Close_def split: if_splits)
  from cl cb c1 show "db bl' = Some (BoltDB (fullPath bl)) \<and> closes w' = closes w"
    if "batchMode bl"
    using that by (auto simp: closeDB_def db_Close_def split: if_splits)
qed

lemma bracketed_open_failed:
  assumes b: "bracketed bl w r bl' w'" and nb: "\<not> (batchMode bl \<and> db bl \<noteq> None)"
    and o: "bbolt_Open w (fullPath bl) = Inl er"
  shows "r = Returns () (Some er) \<and> bl' = bl \<and> w' = w"
  using b openDB_Open_failed [OF nb o] unfolding bracketed_def by auto

text \<open>
  C5. Connection lifecycle, for every handle a caller can hold and each of the six public
  operations (GetOne, GetByPrefix, GetKeyList, Save, SaveBytes, Delete). Batch mode off:
  the handle holds no connection between calls; an operation opens one at entry, so that
  where the engine can open the file exactly one connection is opened and one closed,
  and where it cannot the operation returns the engine's error and changes nothing; on
  every exit (a returned value, a returned error, a panic) the connection reference is
  nil. Batch mode on: a connection once open is the same connection after any sequence
  of operations, none opened and none closed; with none open yet, an operation opens one
  and leaves it open where the engine can open the file, and returns the engine's error
  where it cannot. Turning batch mode off closes the connection.
\<close>

theorem connection_lifecycle:
  assumes "reachable L bl"
  shows "(\<not> batchMode bl \<longrightarrow> db bl = None)
    \<and> (\<forall>req r bl' w'. \<not> batchMode bl \<and> run_request L bl w req = (r, bl', w') \<longrightarrow>
          \<not> batchMode bl' \<and> db bl' = None \<and>
          (case bbolt_Open w (fullPath bl) of
             Inr w0 \<Rightarrow> opens w' = Suc (opens w) \<and> closes w' = Suc (closes w)
           | Inl e \<Rightarrow> r = Returns () (Some e) \<and> w' = w))
    \<and> (\<forall>reqs c bl' w'. batchMode bl \<and> db bl = Some c \<and> run_requests L bl w reqs = (bl', w') \<longrightarrow>
          batchMode bl' \<and> db bl' = Some c \<and> opens w' = opens w \<and> closes w' = closes w)
    \<and> (\<forall>req r bl' w'. batchMode bl \<and> db bl = None \<and> run_request L bl w req = (r, bl', w') \<longrightarrow>
          batchMode bl' \<and>
          (case bbolt_Open w (fullPath bl) of
             Inr w0 \<Rightarrow> db bl' = Some (BoltDB (fullPath bl))
               \<and> opens w' = Suc (opens w) \<and> closes w' = closes w
           | Inl e \<Rightarrow> db bl' = None \<and> r = Returns () (Some e) \<and> w' = w))
    \<and> (\<forall>bl' w'. SetBatchMode bl w False = (bl', w') \<longrightarrow>
          \<not> batchMode bl' \<and> db bl' = None \<and>
          closes w' = (if db bl = None then closes w else Suc (closes w)))"
proof (intro conjI allI impI)
  show "db bl = None" if "\<not> batchMode bl"
    using assms that by (rule reachable_closed)
next
  fix req r bl' w'
  assume a: "\<not> batchMode bl \<and> run_request L bl w req = (r, bl', w')"
  then have b: "bracketed bl w r bl' w'"
    by (blast intro: run_request_bracketed)
  have m: "batchMode bl' = batchMode bl"
    by (subst bracketed_config [OF b]) simp
  from a have nb: "\<not> (batchMode bl \<and> db bl \<noteq> None)" and n: "\<not> batchMode bl"
    by simp_all
  from reachable_inv [OF assms] have e: "[] \<notin> set (buckets bl)"
    by (simp add: handle_inv_def)
  from a m show "\<not> batchMode bl'"
    by simp
  from a have "db bl = None"
    using assms by (simp add: reachable_closed)
  from bracketed_closing [OF b n this] show "db bl' = None"
    by simp
  show "case bbolt_Open w (fullPath bl) of
             Inr w0 \<Rightarrow> opens w' = Suc (opens w) \<and> closes w' = Suc (closes w)
           | Inl e \<Rightarrow> r = Returns () (Some e) \<and> w' = w"
  proof (cases "bbolt_Open w (fullPath bl)")
    case (Inl er)
    with bracketed_open_failed [OF b nb Inl] show ?thesis
      by simp
  next
    case (Inr w0)
    with bracketed_opened(1,2) [OF b nb e Inr] n show ?thesis
      by simp
  qed
next
  fix reqs c bl' w'
  assume a: "batchMode bl \<and> db bl = Some c \<and> run_requests L bl w reqs = (bl', w')"
  then have "batchMode bl' \<and> db bl' = Some c \<and> opens w' = opens w \<and> closes w' = closes w"
    using run_requests_batch_kept [of bl c L w reqs bl' w'] by blast
  then show "batchMode bl'" "db bl' = Some c" "opens w' = opens w" "closes w' = closes w"
    by simp_all
next
  fix req r bl' w'
  assume a: "batchMode bl \<and> db bl = None \<and> run_request L bl w req = (r, bl', w')"
  then have b: "bracketed bl w r bl' w'"
    by (blast intro: run_request_bracketed)
  have m: "batchMode bl' = batchMode bl"
    by (subst bracketed_config [OF b]) simp
  from a m show "batchMode bl'"
    by simp
  from a have nb: "\<not> (batchMode bl \<and> db bl \<noteq> None)" and y: "batchMode bl"
    and d: "db bl = None"
    by simp_all
  from reachable_inv [OF assms] have e: "[] \<notin> set (buckets bl)"
    by (simp add: handle_inv_def)
  show "case bbolt_Open w (fullPath bl) of
             Inr w0 \<Rightarrow> db bl' = Some (BoltDB (fullPath bl))
               \<and> opens w' = Suc (opens w) \<and> closes w' = closes w
           | Inl e \<Rightarrow> db bl' = None \<and> r = Returns () (Some e) \<and> w' = w"
  proof (cases "bbolt_Open w (fullPath bl)")
    case (Inl er)
    with bracketed_open_failed [OF b nb Inl] d show ?thesis
      by simp
  next
    case (Inr w0)
    with bracketed_opened(1,3) [OF b nb e Inr] y show ?thesis
      by simp
  qed
next
  fix bl' w'
  assume a: "SetBatchMode bl w False = (bl', w')"
  then show "\<not> batchMode bl'" "db bl' = None"
    "closes w' = (if db bl = None then closes w else Suc (closes w))"
    by (auto simp: SetBatchMode_def closeDB_def db_Close_def Let_def split: if_splits)
qed


lemma demo_batchMode_reachable: "reachable demo_libs (demo_handle\<lparr>batchMode := True\<rparr>)"
  by (rule reachable.after_SetBatchMode [OF demo_reachable, of demo_world True _ demo_world])
     (simp add: SetBatchMode_def)

lemma demo_stored_Open:
  "bbolt_Open demo_stored_world ''./test.db'' = Inr (demo_stored_world\<lparr>opens := 1\<rparr>)"
  by (simp add: bbolt_Open_def demo_stored_world_def demo_world_def)

lemma demo_unopenable_Open:
  "bbolt_Open (demo_stored_world\<lparr>unopenable := \<lambda>p. True\<rparr>) ''./test.db'' = Inl ErrOpenFailed"
  by (simp add: bbolt_Open_def)

lemma demo_paths:
  "fullPath demo_handle = ''./test.db''" "fullPath demo_batch_handle = ''./test.db''"
  "fullPath (demo_handle\<lparr>batchMode := True\<rparr>) = ''./test.db''"
  "batchMode demo_batch_handle" "\<not> batchMode demo_handle"
  "db demo_batch_handle = Some (BoltDB ''./test.db'')" "db demo_handle = None"
  by (simp_all add: demo_handle_def demo_batch_handle_def)

lemma demo_batch_GetOne_ta:
  "fst (GetOne demo_libs demo_batch_handle demo_stored_world ''pii'' ''ta'') = Returns [2, 3] None"
proof -
  have k: "''ta'' \<noteq> []"
    by simp
  have c: "cursor_Seek demo_bucket ''ta''
      = [(''taylor'', demo_payload [2, 3]), (''test'', demo_payload [])]"
    by (simp add: cursor_Seek_def demo_bucket_def)
  have u: "\<not> unopenable demo_stored_world (fullPath demo_batch_handle)"
    and st: "conn_store demo_stored_world (BoltDB (fullPath demo_batch_handle)) ''pii''
      = Some demo_bucket"
    using demo_stored_bucket by (simp_all add: demo_paths)
  have s: "slice_bytes (secret demo_batch_handle) = demo_key"
    using demo_secret(1) by (simp add: demo_batch_handle_def)
  show ?thesis
    by (simp add: GetOne_existing_bucket [OF reachable_inv [OF demo_batch_reachable] u st k] c
        s demo_Decrypt)
qed

theorem connection_lifecycle_witness:
  "reachable demo_libs demo_handle \<and> \<not> batchMode demo_handle
   \<and> conn_store demo_stored_world (BoltDB (fullPath demo_handle)) ''pii'' = Some demo_bucket
   \<and> fst (run_request demo_libs demo_handle demo_stored_world (ReqGetOne ''pii'' ''ta''))
       = Returns () None
   \<and> db (fst (snd (run_request demo_libs demo_handle demo_stored_world
       (ReqGetOne ''pii'' ''ta'')))) = None
   \<and> opens (snd (snd (run_request demo_libs demo_handle demo_stored_world
       (ReqGetOne ''pii'' ''ta'')))) = 1
   \<and> closes (snd (snd (run_request demo_libs demo_handle demo_stored_world
       (ReqGetOne ''pii'' ''ta'')))) = 1
   \<and> fst (run_request demo_libs demo_handle (demo_stored_world\<lparr>unopenable := \<lambda>p. True\<rparr>)
       (ReqSaveBytes ''pii'' ''k'' (Some [1]))) = Returns () (Some ErrOpenFailed)
   \<and> opens (snd (snd (run_request demo_libs demo_handle
       (demo_stored_world\<lparr>unopenable := \<lambda>p. True\<rparr>) (ReqSaveBytes ''pii'' ''k'' (Some [1]))))) = 0
   \<and> closes (snd (snd (run_request demo_libs demo_handle
       (demo_stored_world\<lparr>unopenable := \<lambda>p. True\<rparr>) (ReqSaveBytes ''pii'' ''k'' (Some [1]))))) = 0
   \<and> reachable demo_libs demo_batch_handle \<and> batchMode demo_batch_handle
   \<and> db demo_batch_handle = Some (BoltDB ''./test.db'')
   \<and> fst (run_request demo_libs demo_batch_handle demo_stored_world (ReqGetOne ''pii'' ''ta''))
       = Returns () None
   \<and> db (fst (run_requests demo_libs demo_batch_handle demo_stored_world
       [ReqGetOne ''pii'' ''ta'', ReqSaveBytes ''pii'' ''k'' (Some [1]), ReqDelete ''pii'' ''k'']))
       = Some (BoltDB ''./test.db'')
   \<and> opens (snd (run_requests demo_libs demo_batch_handle demo_stored_world
       [ReqGetOne ''pii'' ''ta'', ReqSaveBytes ''pii'' ''k'' (Some [1]), ReqDelete ''pii'' ''k'']))
       = 0
   \<and> closes (snd (run_requests demo_libs demo_batch_handle demo_stored_world
       [ReqGetOne ''pii'' ''ta'', ReqSaveBytes ''pii'' ''k'' (Some [1]), ReqDelete ''pii'' ''k'']))
       = 0
   \<and> reachable demo_libs (demo_handle\<lparr>batchMode := True\<rparr>)
   \<and> db (fst (snd (run_request demo_libs (demo_handle\<lparr>batchMode := True\<rparr>) demo_stored_world
       (ReqGetOne ''pii'' ''ta'')))) = Some (BoltDB ''./test.db'')
   \<and> opens (snd (snd (run_request demo_libs (demo_handle\<lparr>batchMode := True\<rparr>)
       demo_stored_world (ReqGetOne ''pii'' ''ta'')))) = 1
   \<and> closes (snd (snd (run_request demo_libs (demo_handle\<lparr>batchMode := True\<rparr>)
       demo_stored_world (ReqGetOne ''pii'' ''ta'')))) = 0
   \<and> db (fst (SetBatchMode demo_batch_handle demo_stored_world False)) = None
   \<and> closes (snd (SetBatchMode demo_batch_handle demo_stored_world False)) = 1"
proof -
  let ?g = "ReqGetOne ''pii'' ''ta'' :: bytes request"
  let ?s = "ReqSaveBytes ''pii'' ''k'' (Some [1]) :: bytes request"
  let ?u = "demo_stored_world\<lparr>unopenable := \<lambda>p. True\<rparr>"
  let ?rs = "[?g, ?s, ReqDelete ''pii'' ''k''] :: bytes request list"
  let ?b = "demo_handle\<lparr>batchMode := True\<rparr>"
  have z: "opens demo_stored_world = 0" "closes demo_stored_world = 0"
    by (simp_all add: demo_stored_world_def demo_world_def)
  have c: "x = (fst x, fst (snd x), snd (snd x))" for x :: "unit outcome \<times> BoltLocknut \<times> world"
    by simp
  have c2: "x = (fst x, snd x)" for x :: "BoltLocknut \<times> world"
    by simp
  note t1 = connection_lifecycle [OF demo_reachable, of demo_stored_world]
  note t2 = connection_lifecycle [OF demo_reachable, of ?u]
  note t3 = connection_lifecycle [OF demo_batch_reachable, of demo_stored_world]
  note t4 = connection_lifecycle [OF demo_batchMode_reachable, of demo_stored_world]
  have 1: "db (fst (snd (run_request demo_libs demo_handle demo_stored_world ?g))) = None
    \<and> opens (snd (snd (run_request demo_libs demo_handle demo_stored_world ?g))) = 1
    \<and> closes (snd (snd (run_request demo_libs demo_handle demo_stored_world ?g))) = 1"
    using t1 [THEN conjunct2, THEN conjunct1, rule_format, of ?g,
        OF conjI [OF demo_paths(5) c]]
    by (simp add: demo_paths demo_stored_Open z)
  have 2: "fst (run_request demo_libs demo_handle ?u ?s) = Returns () (Some ErrOpenFailed)
    \<and> snd (snd (run_request demo_libs demo_handle ?u ?s)) = ?u"
    using t2 [THEN conjunct2, THEN conjunct1, rule_format, of ?s,
        OF conjI [OF demo_paths(5) c]]
    by (simp add: demo_paths demo_unopenable_Open)
  have 3: "db (fst (run_requests demo_libs demo_batch_handle demo_stored_world ?rs))
      = Some (BoltDB ''./test.db'')
    \<and> opens (snd (run_requests demo_libs demo_batch_handle demo_stored_world ?rs)) = 0
    \<and> closes (snd (run_requests demo_libs demo_batch_handle demo_stored_world ?rs)) = 0"
    using t3 [THEN conjunct2, THEN conjunct2, THEN conjunct1, rule_format, of _ ?rs,
        OF conjI [OF demo_paths(4) conjI [OF demo_paths(6) c2]]]
    by (simp add: z)
  have b: "batchMode ?b" "db ?b = None"
    by (simp_all add: demo_handle_def)
  have 4: "db (fst (snd (run_request demo_libs ?b demo_stored_world ?g)))
      = Some (BoltDB ''./test.db'')
    \<and> opens (snd (snd (run_request demo_libs ?b demo_stored_world ?g))) = 1
    \<and> closes (snd (snd (run_request demo_libs ?b demo_stored_world ?g))) = 0"
    using t4 [THEN conjunct2, THEN conjunct2, THEN conjunct2, THEN conjunct1, rule_format,
        of ?g, OF conjI [OF b(1) conjI [OF b(2) c]]]
    by (simp add: demo_paths demo_stored_Open z)
  have 5: "db (fst (SetBatchMode demo_batch_handle demo_stored_world False)) = None
    \<and> closes (snd (SetBatchMode demo_batch_handle demo_stored_world False)) = 1"
    using t3 [THEN conjunct2, THEN conjunct2, THEN conjunct2, THEN conjunct2, rule_format,
        OF c2]
    by (simp add: demo_paths z)
  have 6: "fst (run_request demo_libs demo_handle demo_stored_world ?g) = Returns () None"
    by (simp add: drop_value_def split_beta status_def demo_GetOne_ta)
  have 7: "fst (run_request demo_libs demo_batch_handle demo_stored_world ?g) = Returns () None"
    by (simp add: drop_value_def split_beta status_def demo_batch_GetOne_ta)
  from 2 have 8: "opens (snd (snd (run_request demo_libs demo_handle ?u ?s))) = 0"
    "closes (snd (snd (run_request demo_libs demo_handle ?u ?s))) = 0"
    by (simp_all add: z)
  show ?thesis
    using demo_reachable demo_batch_reachable demo_batchMode_reachable demo_paths(4,5,6)
      demo_stored_bucket(1) 1 2 3 4 5 6 7 8
    by simp
qed

end
